theory Spec2Isabelle
  imports Main "HOL-Library.Word" "HOL-Library.Multiset" "HOL-Library.AList"
begin

section \<open>Go library functions used by gosnapper.go\<close>

text \<open>
  Go strings are byte sequences; they are modelled as \<open>string\<close> (a list of 8-bit
  characters). The functions of this section model the parts of the packages
  \<open>strings\<close>, \<open>strconv\<close>, \<open>path/filepath\<close> (Unix) and \<open>time\<close> that the program
  calls, restricted to the arguments the program passes.
\<close>

subsection \<open>Package strings\<close>

definition nl :: char where
  "nl = CHR 0x0A"

definition HasSuffix :: "string \<Rightarrow> string \<Rightarrow> bool" where
  "HasSuffix s suffix \<longleftrightarrow>
     length suffix \<le> length s \<and> drop (length s - length suffix) s = suffix"

definition TrimSuffix :: "string \<Rightarrow> string \<Rightarrow> string" where
  "TrimSuffix s suffix =
     (if HasSuffix s suffix then take (length s - length suffix) s else s)"

fun Contains :: "string \<Rightarrow> string \<Rightarrow> bool" where
  "Contains [] substr = (substr = [])"
| "Contains (c # cs) substr =
     (take (length substr) (c # cs) = substr \<or> Contains cs substr)"

fun Join :: "string list \<Rightarrow> string \<Rightarrow> string" where
  "Join [] sep = []"
| "Join [a] sep = a"
| "Join (a # b # bs) sep = a @ sep @ Join (b # bs) sep"

text \<open>\<open>strings.Split(s, sep)\<close> for a separator of one byte (the program splits at "/").\<close>

fun Split :: "string \<Rightarrow> char \<Rightarrow> string list" where
  "Split [] sep = [[]]"
| "Split (c # cs) sep =
     (if c = sep then [] # Split cs sep
      else (case Split cs sep of [] \<Rightarrow> [[c]] | w # ws \<Rightarrow> (c # w) # ws))"

text \<open>
  Go reads a string as UTF-8 where it iterates over its runes. \<open>DecodeRune\<close> gives the
  rune that a text starts with and the number of bytes it takes, as \<open>utf8.DecodeRuneInString\<close>
  and the \<open>range\<close> over a string do: a byte that starts no well-formed encoding is the
  rune \<open>RuneError\<close> of width 1.
\<close>

definition RuneError :: int where
  "RuneError = 0xFFFD"

definition byte :: "char \<Rightarrow> int" where
  "byte c = of_char c"

definition between :: "int \<Rightarrow> int \<Rightarrow> char \<Rightarrow> bool" where
  "between lo hi c \<longleftrightarrow> lo \<le> byte c \<and> byte c \<le> hi"

definition DecodeRune :: "string \<Rightarrow> int \<times> nat" where
  "DecodeRune s =
     (case s of
        [] \<Rightarrow> (RuneError, 0)
      | b0 # r \<Rightarrow>
          let x = byte b0 in
          if x < 0x80 then (x, 1)
          else if x < 0xC2 \<or> 0xF4 < x then (RuneError, 1)
          else if x < 0xE0 then
            (case r of
               b1 # _ \<Rightarrow>
                 if between 0x80 0xBF b1 then ((x mod 0x20) * 0x40 + byte b1 mod 0x40, 2)
                 else (RuneError, 1)
             | _ \<Rightarrow> (RuneError, 1))
          else if x < 0xF0 then
            (case r of
               b1 # b2 # _ \<Rightarrow>
                 if between (if x = 0xE0 then 0xA0 else 0x80) (if x = 0xED then 0x9F else 0xBF) b1
                    \<and> between 0x80 0xBF b2
                 then ((x mod 0x10) * 0x1000 + (byte b1 mod 0x40) * 0x40 + byte b2 mod 0x40, 3)
                 else (RuneError, 1)
             | _ \<Rightarrow> (RuneError, 1))
          else
            (case r of
               b1 # b2 # b3 # _ \<Rightarrow>
                 if between (if x = 0xF0 then 0x90 else 0x80) (if x = 0xF4 then 0x8F else 0xBF) b1
                    \<and> between 0x80 0xBF b2 \<and> between 0x80 0xBF b3
                 then ((x mod 0x08) * 0x40000 + (byte b1 mod 0x40) * 0x1000
                         + (byte b2 mod 0x40) * 0x40 + byte b3 mod 0x40, 4)
                 else (RuneError, 1)
             | _ \<Rightarrow> (RuneError, 1)))"

text \<open>\<open>unicode.IsSpace\<close>: the white space of Unicode.\<close>

definition IsSpace :: "int \<Rightarrow> bool" where
  "IsSpace r \<longleftrightarrow>
     r \<in> {0x09, 0x0A, 0x0B, 0x0C, 0x0D, 0x20, 0x85, 0xA0, 0x1680, 0x2028, 0x2029, 0x202F,
           0x205F, 0x3000}
     \<or> (0x2000 \<le> r \<and> r \<le> 0x200A)"

text \<open>
  \<open>strings.Fields\<close>: the maximal runs of runes that are not white space (on a text of
  ASCII bytes the fast path of Go gives the same fields). \<open>cur\<close> holds the bytes of the
  field that is being read, the last one first.
\<close>

fun FieldsFunc_from :: "string \<Rightarrow> string \<Rightarrow> string list" where
  "FieldsFunc_from cur [] = (if cur = [] then [] else [rev cur])"
| "FieldsFunc_from cur (b # bs) =
     (if IsSpace (fst (DecodeRune (b # bs)))
      then (if cur = [] then FieldsFunc_from [] (drop (snd (DecodeRune (b # bs)) - 1) bs)
            else rev cur # FieldsFunc_from [] (drop (snd (DecodeRune (b # bs)) - 1) bs))
      else FieldsFunc_from (rev (take (snd (DecodeRune (b # bs))) (b # bs)) @ cur)
             (drop (snd (DecodeRune (b # bs)) - 1) bs))"

definition Fields :: "string \<Rightarrow> string list" where
  "Fields s = FieldsFunc_from [] s"

subsection \<open>Package strconv and the verb \<open>%d\<close>\<close>

definition isDigit :: "char \<Rightarrow> bool" where
  "isDigit c \<longleftrightarrow> (48::int) \<le> of_char c \<and> of_char c \<le> (57::int)"

definition digit_of :: "char \<Rightarrow> int" where
  "digit_of c = of_char c - 48"

fun parse_digits :: "int \<Rightarrow> string \<Rightarrow> int option" where
  "parse_digits acc [] = Some acc"
| "parse_digits acc (c # cs) =
     (if isDigit c then parse_digits (acc * 10 + digit_of c) cs else None)"

text \<open>
  \<open>strconv.ParseInt(s, 10, 64)\<close>: \<open>None\<close> stands for a non-nil error (a syntax error or
  a value outside the range of int64), \<open>Some v\<close> for the value returned with a nil error.
\<close>

definition ParseInt :: "string \<Rightarrow> int option" where
  "ParseInt s =
     (if s = [] then None
      else
        let neg = (hd s = CHR ''-'');
            s0 = (if hd s = CHR ''+'' \<or> hd s = CHR ''-'' then tl s else s)
        in if s0 = [] then None
           else (case parse_digits 0 s0 of
                   None \<Rightarrow> None
                 | Some un \<Rightarrow>
                     if \<not> neg \<and> un \<ge> 2 ^ 63 then None
                     else if neg \<and> un > 2 ^ 63 then None
                     else Some (if neg then - un else un)))"

fun utoa :: "nat \<Rightarrow> string" where
  "utoa n = (if n < 10 then [char_of (48 + n)] else utoa (n div 10) @ [char_of (48 + n mod 10)])"

declare utoa.simps [simp del]

text \<open>The decimal rendering of an integer, as \<open>fmt.Sprintf("%d", i)\<close> prints it.\<close>

definition itoa :: "int \<Rightarrow> string" where
  "itoa i = (if i < 0 then CHR ''-'' # utoa (nat (- i)) else utoa (nat i))"

subsection \<open>Package path/filepath (Unix)\<close>

text \<open>
  \<open>filepath.Clean\<close>: empty and "." elements are dropped, a ".." element removes the
  element before it (at the root it is dropped, at the start of a relative path it stays),
  and the empty result is ".".
\<close>

fun clean_elems :: "bool \<Rightarrow> string list \<Rightarrow> string list \<Rightarrow> string list" where
  "clean_elems rooted stack [] = rev stack"
| "clean_elems rooted stack (e # es) =
     (if e = [] \<or> e = ''.'' then clean_elems rooted stack es
      else if e = ''..'' then
        (case stack of
           [] \<Rightarrow> if rooted then clean_elems rooted [] es else clean_elems rooted [''..''] es
         | t # ts \<Rightarrow>
             if t = ''..'' then clean_elems rooted (''..'' # stack) es
             else clean_elems rooted ts es)
      else clean_elems rooted (e # stack) es)"

definition Clean :: "string \<Rightarrow> string" where
  "Clean p =
     (let rooted = (p \<noteq> [] \<and> hd p = CHR ''/'');
          r = (if rooted then ''/'' else []) @ Join (clean_elems rooted [] (Split p (CHR ''/''))) ''/''
      in if r = [] then ''.'' else r)"

text \<open>\<open>filepath.Dir\<close>: the path up to and including its last separator, cleaned.\<close>

definition Dir :: "string \<Rightarrow> string" where
  "Dir p = Clean (rev (dropWhile (\<lambda>c. c \<noteq> CHR ''/'') (rev p)))"

subsection \<open>Package time\<close>

text \<open>
  A \<open>time.Time\<close> is an instant; the model holds it as its calendar fields in UTC, so
  that two values are equal exactly when they are the same instant (\<open>Equal\<close>) and the
  order of instants is the lexicographic order of the fields (\<open>After\<close>).
\<close>

record Time =
  t_year :: int
  t_month :: int
  t_day :: int
  t_hour :: int
  t_min :: int
  t_sec :: int
  t_nsec :: int

definition zero_Time :: Time where
  "zero_Time = \<lparr>t_year = 1, t_month = 1, t_day = 1, t_hour = 0, t_min = 0, t_sec = 0, t_nsec = 0\<rparr>"

definition Equal :: "Time \<Rightarrow> Time \<Rightarrow> bool" where
  "Equal t u \<longleftrightarrow> t = u"

definition time_key :: "Time \<Rightarrow> int list" where
  "time_key t = [t_year t, t_month t, t_day t, t_hour t, t_min t, t_sec t, t_nsec t]"

fun lex_less :: "int list \<Rightarrow> int list \<Rightarrow> bool" where
  "lex_less (a # as) (b # bs) = (a < b \<or> (a = b \<and> lex_less as bs))"
| "lex_less _ _ = False"

definition After :: "Time \<Rightarrow> Time \<Rightarrow> bool" where
  "After t u \<longleftrightarrow> lex_less (time_key u) (time_key t)"

definition isLeap :: "int \<Rightarrow> bool" where
  "isLeap y \<longleftrightarrow> y mod 4 = 0 \<and> (y mod 100 \<noteq> 0 \<or> y mod 400 = 0)"

definition daysIn :: "int \<Rightarrow> int \<Rightarrow> int" where
  "daysIn m y =
     (if m = 2 then (if isLeap y then 29 else 28)
      else if m = 4 \<or> m = 6 \<or> m = 9 \<or> m = 11 then 30 else 31)"

text \<open>
  \<open>t.AddDate(years, 0, 0)\<close> for a time in UTC: the year changes, and a 29 February
  that the new year does not have is normalised to 1 March.
\<close>

definition AddDate_years :: "Time \<Rightarrow> int \<Rightarrow> Time" where
  "AddDate_years t years =
     (if t_month t = 2 \<and> t_day t = 29 \<and> \<not> isLeap (t_year t + years)
      then t\<lparr>t_year := t_year t + years, t_month := 3, t_day := 1\<rparr>
      else t\<lparr>t_year := t_year t + years\<rparr>)"

definition lower :: "char \<Rightarrow> char" where
  "lower c = (if (65::nat) \<le> of_char c \<and> of_char c \<le> (90::nat)
              then char_of (of_char c + (32::nat)) else c)"

definition shortMonthNames :: "string list" where
  "shortMonthNames = [''Jan'', ''Feb'', ''Mar'', ''Apr'', ''May'', ''Jun'',
                      ''Jul'', ''Aug'', ''Sep'', ''Oct'', ''Nov'', ''Dec'']"

text \<open>The month a text starts with (its number, from 1) and the rest of the text.\<close>

definition lookup_month :: "string \<Rightarrow> (int \<times> string) option" where
  "lookup_month v =
     (case filter (\<lambda>i. map lower (take 3 v) = map lower (shortMonthNames ! i)) [0..<12] of
        [] \<Rightarrow> None
      | i # _ \<Rightarrow> Some (int i + 1, drop 3 v))"

text \<open>A space of the layout: the text is at its end, or goes on after its spaces.\<close>

definition skip_space :: "string \<Rightarrow> string option" where
  "skip_space v =
     (case v of [] \<Rightarrow> Some []
      | c # cs \<Rightarrow> if c = CHR '' '' then Some (dropWhile (\<lambda>c. c = CHR '' '') v) else None)"

text \<open>A number of one or two digits (of exactly two when \<open>fixed\<close>).\<close>

definition getnum :: "string \<Rightarrow> bool \<Rightarrow> (int \<times> string) option" where
  "getnum s fixed =
     (case s of
        [] \<Rightarrow> None
      | a # r \<Rightarrow>
          if \<not> isDigit a then None
          else (case r of
                  [] \<Rightarrow> if fixed then None else Some (digit_of a, r)
                | b # r' \<Rightarrow>
                    if isDigit b then Some (digit_of a * 10 + digit_of b, r')
                    else if fixed then None else Some (digit_of a, r)))"

text \<open>The year of the layout element 2006: exactly four digits.\<close>

definition getyear :: "string \<Rightarrow> (int \<times> string) option" where
  "getyear v =
     (if length v < 4 \<or> \<not> list_all isDigit (take 4 v) then None
      else (case parse_digits 0 (take 4 v) of
              None \<Rightarrow> None
            | Some y \<Rightarrow> Some (y, drop 4 v)))"

text \<open>The common start of both layouts, "Jan 2 2006": month, day, year and the rest.\<close>

definition parse_mdy :: "string \<Rightarrow> (int \<times> int \<times> int \<times> string) option" where
  "parse_mdy v =
     (case lookup_month v of None \<Rightarrow> None
      | Some (m, v1) \<Rightarrow>
     (case skip_space v1 of None \<Rightarrow> None
      | Some v2 \<Rightarrow>
     (case getnum v2 False of None \<Rightarrow> None
      | Some (d, v3) \<Rightarrow>
     (case skip_space v3 of None \<Rightarrow> None
      | Some v4 \<Rightarrow>
     (case getyear v4 of None \<Rightarrow> None
      | Some (y, v5) \<Rightarrow> Some (m, d, y, v5))))))"

definition parse_date :: "string \<Rightarrow> Time option" where
  "parse_date v =
     (case parse_mdy v of None \<Rightarrow> None
      | Some (m, d, y, r) \<Rightarrow>
          if r \<noteq> [] then None
          else if d < 1 \<or> daysIn m y < d then None
          else Some \<lparr>t_year = y, t_month = m, t_day = d, t_hour = 0, t_min = 0,
                      t_sec = 0, t_nsec = 0\<rparr>)"

definition parse_date_time :: "string \<Rightarrow> Time option" where
  "parse_date_time v =
     (case parse_mdy v of None \<Rightarrow> None
      | Some (m, d, y, v1) \<Rightarrow>
     (case skip_space v1 of None \<Rightarrow> None
      | Some v2 \<Rightarrow>
     (case getnum v2 False of None \<Rightarrow> None
      | Some (h, v3) \<Rightarrow>
          if 24 \<le> h then None
          else (case v3 of [] \<Rightarrow> None
                | c # v4 \<Rightarrow>
                    if c \<noteq> CHR '':'' then None
                    else (case getnum v4 True of None \<Rightarrow> None
                          | Some (mi, v5) \<Rightarrow>
                              if 60 \<le> mi then None
                              else if v5 \<noteq> [] then None
                              else if d < 1 \<or> daysIn m y < d then None
                              else Some \<lparr>t_year = y, t_month = m, t_day = d, t_hour = h,
                                          t_min = mi, t_sec = 0, t_nsec = 0\<rparr>)))))"

text \<open>
  \<open>time.Parse(layout, value)\<close> for the two layouts of the program; \<open>None\<close> stands for a
  non-nil error. The result is a time in UTC.
\<close>

definition Parse :: "string \<Rightarrow> string \<Rightarrow> Time option" where
  "Parse layout v =
     (if layout = ''Jan 2 2006 15:04'' then parse_date_time v
      else if layout = ''Jan 2 2006'' then parse_date v
      else None)"

section \<open>The data of gosnapper.go\<close>

definition ThreadPoolDefaultSize :: int where
  "ThreadPoolDefaultSize = 10"

definition ExitError :: string where
  "ExitError = ''tarsnap: Error exit delayed from previous errors.'' @ [nl]"

definition NotOlderError :: string where
  "NotOlderError = ''File on disk is not older; skipping.'' @ [nl]"

definition AlreadyExists :: string where
  "AlreadyExists = '': Already exists'' @ [nl]"

text \<open>
  A group of files and its accumulated weight. Sizes and weights are int64: 64-bit words,
  whose sum wraps around and which are compared as signed values. The worker count is a Go
  \<open>int\<close>, of which the program tests the sign and the equality with 0 only: an \<open>int\<close>.
\<close>

record Group =
  Files :: "string list"
  Size :: "64 word"

definition Add :: "Group \<Rightarrow> string \<Rightarrow> 64 word \<Rightarrow> Group" where
  "Add g name sz = g\<lparr>Files := Files g @ [name], Group.Size := Group.Size g + sz\<rparr>"

record FileInfo =
  Size :: "64 word"
  Date :: Time

text \<open>
  A Go \<open>map[string]FileInfo\<close> is an association list with distinct keys; an assignment
  \<open>m[k] = v\<close> is \<open>AList.update k v m\<close>. The order of the list stands for one of the
  orders in which Go may iterate over the map.
\<close>

type_synonym inventory = "(string \<times> FileInfo) list"

record Options =
  Directory :: string
  ThreadPoolSize :: int
  TarsnapOptions :: "string list"
  Previous :: "inventory option"

record GoSnapper =
  archive :: string
  options :: Options
  tpsize :: int
  files :: "inventory option"
  errorOccured :: bool

text \<open>The association list that caches the inventory is a map: no key is in it twice.\<close>

definition distinct_keys :: "GoSnapper \<Rightarrow> bool" where
  "distinct_keys rs \<longleftrightarrow>
     (case files rs of None \<Rightarrow> True | Some fs \<Rightarrow> distinct (map fst fs))"

text \<open>What the process \<open>tarsnap -tvf\<close> does: the pipe or the start fails with an error,
  or it runs, the scanner yields the lines of its standard output, and \<open>Wait\<close> returns
  an error or none.\<close>

datatype listing =
    ListPipeFails string
  | ListStartFails string
  | ListRuns "string list" "string option"

text \<open>What the process \<open>tarsnap -xvf\<close> of a worker does; the lines are those the scanner
  yields from its standard error.\<close>

datatype extraction =
    ExtractPipeFails string
  | ExtractStartFails string
  | ExtractRuns "string list"

text \<open>
  The environment of a run: the two kinds of processes, the successive readings of
  \<open>time.Now()\<close> and the calendar year of an instant in the local zone, the order of the
  entries after the iteration over the map and \<open>sort.Slice\<close>, and the elapsed time that
  a worker prints.
\<close>

record env =
  listing_of :: listing
  now_at :: "nat \<Rightarrow> Time"
  Year :: "Time \<Rightarrow> int"
  sort_Slice :: "inventory \<Rightarrow> inventory"
  extraction_of :: "nat \<Rightarrow> extraction"
  elapsed :: "nat \<Rightarrow> string"

text \<open>The state outside the GoSnapper value: what was written to \<open>os.Stderr\<close>, and the
  number of readings of the clock so far.\<close>

record world =
  stderr :: "string list"
  ticks :: nat

datatype panic = MakeSliceLenOutOfRange | MakeSliceCapOutOfRange | IndexOutOfRange

text \<open>
  \<open>make([]T, len, cap)\<close> of the runtime (\<open>makeslice\<close>) on a 64-bit platform, where
  \<open>maxAlloc\<close> is \<open>2^48\<close> bytes, a pointer takes 8 bytes and a slice header 24: it panics when
  the length or the capacity is negative or takes more than \<open>maxAlloc\<close> bytes, or the
  length exceeds the capacity; the message is the one about the length when the length
  itself is negative or too large, and the one about the capacity otherwise. \<open>None\<close>
  stands for a slice that is made. That the machine runs out of memory is no panic of the
  program and is outside the model.
\<close>

definition maxAlloc :: int where
  "maxAlloc = 2 ^ 48"

definition makeslice :: "int \<Rightarrow> int \<Rightarrow> int \<Rightarrow> panic option" where
  "makeslice elem_size len cap =
     (if cap < 0 \<or> maxAlloc < elem_size * cap \<or> len < 0 \<or> cap < len
      then (if len < 0 \<or> maxAlloc < elem_size * len then Some MakeSliceLenOutOfRange
            else Some MakeSliceCapOutOfRange)
      else None)"

definition Fprintf :: "world \<Rightarrow> string \<Rightarrow> world" where
  "Fprintf w s = w\<lparr>stderr := stderr w @ [s]\<rparr>"

section \<open>NewGoSnapper\<close>

definition NewGoSnapper :: "string \<Rightarrow> Options \<Rightarrow> GoSnapper" where
  "NewGoSnapper a opts =
     (let opts' = (if ThreadPoolSize opts = 0
                   then opts\<lparr>ThreadPoolSize := ThreadPoolDefaultSize\<rparr> else opts)
      in \<lparr>archive = a, options = opts', tpsize = ThreadPoolSize opts', files = None,
          errorOccured = False\<rparr>)"

section \<open>GetFiles\<close>

text \<open>The text of the date (the variable \<open>dateStr\<close>); \<open>k\<close> is the number of readings of
  the clock so far, so that \<open>now_at e k\<close> is what \<open>time.Now()\<close> returns next.\<close>

definition dateStr_of :: "env \<Rightarrow> nat \<Rightarrow> string list \<Rightarrow> string" where
  "dateStr_of e k fs =
     (let month = fs ! 5;
          day = fs ! 6;
          yearOrTime = fs ! 7
      in if Contains yearOrTime '':''
         then month @ '' '' @ day @ '' '' @ itoa (Year e (now_at e k)) @ '' '' @ yearOrTime
         else month @ '' '' @ day @ '' '' @ yearOrTime)"

text \<open>The two attempts to parse the date.\<close>

definition parse_dateStr :: "string \<Rightarrow> Time option" where
  "parse_dateStr dateStr =
     (case Parse ''Jan 2 2006 15:04'' dateStr of
        Some date \<Rightarrow> Some date
      | None \<Rightarrow> Parse ''Jan 2 2006'' dateStr)"

text \<open>
  One line of the listing (the body of the scanner loop): the entry it yields, if any,
  and the number of clock readings after it.
\<close>

definition parse_entry :: "env \<Rightarrow> nat \<Rightarrow> string \<Rightarrow> (string \<times> FileInfo) option \<times> nat" where
  "parse_entry e k entry =
     (let fields = Fields entry in
      if length fields < 9 then (None, k)
      else
        (case ParseInt (fields ! 4) of
           None \<Rightarrow> (None, k)
         | Some sz \<Rightarrow>
             let name = Join (drop 8 fields) '' '';
                 dateStr = dateStr_of e k fields;
                 k1 = (if Contains (fields ! 7) '':'' then Suc k else k)
             in (case parse_dateStr dateStr of
                   None \<Rightarrow> (None, k1)
                 | Some date \<Rightarrow>
                     let date' = (if After date (now_at e k1) then AddDate_years date (- 1)
                                  else date)
                     in (Some (name, \<lparr>FileInfo.Size = word_of_int sz, Date = date'\<rparr>),
                         Suc k1))))"

definition scan_line :: "env \<Rightarrow> string \<Rightarrow> inventory \<times> nat \<Rightarrow> inventory \<times> nat" where
  "scan_line e entry s =
     (case parse_entry e (snd s) entry of
        (None, k') \<Rightarrow> (fst s, k')
      | (Some (name, info), k') \<Rightarrow> (AList.update name info (fst s), k'))"

definition GetFiles :: "env \<Rightarrow> GoSnapper \<Rightarrow> world \<Rightarrow> inventory option \<times> GoSnapper \<times> world" where
  "GetFiles e rs w =
     (case files rs of
        Some fs \<Rightarrow> (Some fs, rs, w)
      | None \<Rightarrow>
          (case listing_of e of
             ListPipeFails err \<Rightarrow>
               (None, rs, Fprintf w (''Error creating stdout pipe: '' @ err @ [nl]))
           | ListStartFails err \<Rightarrow>
               (None, rs, Fprintf w (''Error starting tarsnap: '' @ err @ [nl]))
           | ListRuns lines waited \<Rightarrow>
               let (fs, k) = fold (scan_line e) lines ([], ticks w);
                   w1 = (case waited of
                           None \<Rightarrow> w
                         | Some err \<Rightarrow> Fprintf w (''Error waiting for tarsnap: '' @ err @ [nl]));
                   w2 = Fprintf w1 (''File scanning complete: '' @ itoa (int (length fs))
                                     @ '' files found in archive'' @ [nl])
               in (Some fs, rs\<lparr>files := Some fs\<rparr>, w2\<lparr>ticks := k\<rparr>)))"

section \<open>EmptyDirs\<close>

text \<open>The parent directories that the inner loop of \<open>EmptyDirs\<close> deletes for \<open>dir\<close>.\<close>

definition parentDirs :: "string \<Rightarrow> string list" where
  "parentDirs dir =
     (let components = Split (TrimSuffix dir ''/'') (CHR ''/'')
      in map (\<lambda>i. Join (take (i + 1) components) ''/'' @ ''/'')
           (filter (\<lambda>i. int i < int (length components) - 1) [0..<length components]))"

text \<open>The map \<open>emptyDirs\<close> is a set of names: a list without duplicates. The result is
  the list of its keys, in one of the orders of the iteration over the map.\<close>

definition EmptyDirs :: "string list \<Rightarrow> string list \<Rightarrow> string list" where
  "EmptyDirs fileNames dirs =
     (let emptyDirs = remdups dirs;
          emptyDirs1 = fold (\<lambda>file m. removeAll (Dir file @ ''/'') m) fileNames emptyDirs;
          emptyDirs2 = fold (\<lambda>dir m. fold (\<lambda>parentDir m'. removeAll parentDir m') (parentDirs dir) m)
                         dirs emptyDirs1
      in emptyDirs2)"

section \<open>FilesToExtract\<close>

definition separate :: "inventory \<Rightarrow> string list \<times> inventory" where
  "separate allFiles =
     fold (\<lambda>(name, info) (dirs, filesToExtract).
             if HasSuffix name ''/'' then (dirs @ [name], filesToExtract)
             else (dirs, AList.update name info filesToExtract))
       allFiles ([], [])"

text \<open>The body of \<open>FilesToExtract\<close> after the call of \<open>GetFiles\<close>.\<close>

definition FilesToExtract_from :: "inventory \<Rightarrow> inventory" where
  "FilesToExtract_from allFiles =
     (let (dirs, filesToExtract) = separate allFiles;
          fileNames = map fst filesToExtract;
          emptyDirs = EmptyDirs fileNames dirs
      in fold (\<lambda>dir m. AList.update dir \<lparr>FileInfo.Size = 0, Date = zero_Time\<rparr> m)
           emptyDirs filesToExtract)"

text \<open>The iteration over a nil map runs no step.\<close>

definition FilesToExtract :: "env \<Rightarrow> GoSnapper \<Rightarrow> world \<Rightarrow> inventory \<times> GoSnapper \<times> world" where
  "FilesToExtract e rs w =
     (let (allFiles, rs', w') = GetFiles e rs w
      in (FilesToExtract_from (case allFiles of None \<Rightarrow> [] | Some m \<Rightarrow> m), rs', w'))"

section \<open>FileGroups\<close>

text \<open>The weight with which an entry joins its group (the variable \<open>size\<close> of the loop).\<close>

definition effective_size :: "inventory option \<Rightarrow> string \<times> FileInfo \<Rightarrow> 64 word" where
  "effective_size prev entry =
     (case prev of
        None \<Rightarrow> FileInfo.Size (snd entry)
      | Some previous \<Rightarrow>
          (case map_of previous (fst entry) of
             None \<Rightarrow> FileInfo.Size (snd entry)
           | Some prevInfo \<Rightarrow>
               if FileInfo.Size prevInfo = FileInfo.Size (snd entry)
                  \<and> Equal (Date prevInfo) (Date (snd entry))
               then 0 else FileInfo.Size (snd entry)))"

text \<open>The index of the group that the inner loop leaves in \<open>smallestGroup\<close>; the
  comparison of two int64 is the comparison of the signed values.\<close>

definition smallestGroup :: "Group list \<Rightarrow> nat" where
  "smallestGroup groups =
     fold (\<lambda>i best. if sint (Group.Size (groups ! i)) < sint (Group.Size (groups ! best))
                     then i else best)
       [0..<length groups] 0"

text \<open>One step of the distribution loop; \<open>groups[0]\<close> panics when there is no group.\<close>

definition assign :: "inventory option \<Rightarrow> Group list \<Rightarrow> string \<times> FileInfo \<Rightarrow> panic + Group list" where
  "assign prev groups entry =
     (if groups = [] then Inl IndexOutOfRange
      else
        let sz = effective_size prev entry;
            b = smallestGroup groups
        in Inr (groups[b := Add (groups ! b) (fst entry) sz]))"

fun distribute :: "inventory option \<Rightarrow> Group list \<Rightarrow> inventory \<Rightarrow> panic + Group list" where
  "distribute prev groups [] = Inr groups"
| "distribute prev groups (entry # entries) =
     (case assign prev groups entry of
        Inl p \<Rightarrow> Inl p
      | Inr groups' \<Rightarrow> distribute prev groups' entries)"

text \<open>The array of empty groups, \<open>make([]*Group, rs.tpsize)\<close> and the loop that fills it.\<close>

definition new_groups :: "int \<Rightarrow> panic + Group list" where
  "new_groups n =
     (case makeslice 8 n n of
        Some p \<Rightarrow> Inl p
      | None \<Rightarrow> Inr (replicate (nat n) \<lparr>Files = [], Group.Size = 0\<rparr>))"

definition file_lists :: "Group list \<Rightarrow> string list list" where
  "file_lists groups = map Files (filter (\<lambda>g. 0 < length (Files g)) groups)"

text \<open>\<open>FileGroups\<close> up to the end of the distribution loop: the array \<open>groups\<close>.\<close>

definition FileGroups_groups ::
  "env \<Rightarrow> GoSnapper \<Rightarrow> world \<Rightarrow> (panic + Group list) \<times> GoSnapper \<times> world" where
  "FileGroups_groups e rs w =
     (case new_groups (tpsize rs) of
        Inl p \<Rightarrow> (Inl p, rs, w)
      | Inr groups \<Rightarrow>
          let (filesToExtract, rs', w') = FilesToExtract e rs w;
              entries = sort_Slice e filesToExtract
          in (distribute (Previous (options rs)) groups entries, rs', w'))"

text \<open>The result, \<open>make([][]string, 0, rs.tpsize)\<close> and the loop that appends to it: the
  file lists of the groups that are not empty.\<close>

definition FileGroups ::
  "env \<Rightarrow> GoSnapper \<Rightarrow> world \<Rightarrow> (panic + string list list) \<times> GoSnapper \<times> world" where
  "FileGroups e rs w =
     (case FileGroups_groups e rs w of
        (Inl p, rs', w') \<Rightarrow> (Inl p, rs', w')
      | (Inr groups, rs', w') \<Rightarrow>
          (case makeslice 24 0 (tpsize rs) of
             Some p \<Rightarrow> (Inl p, rs', w')
           | None \<Rightarrow> (Inr (file_lists groups), rs', w')))"

text \<open>What \<open>sort.Slice\<close> with the comparison \<open>entries[i].Info.Size > entries[j].Info.Size\<close>
  guarantees of the entries: the same entries, none before one of a greater size.\<close>

definition sorted_by_size :: "inventory \<Rightarrow> bool" where
  "sorted_by_size es \<longleftrightarrow>
     sorted_wrt (\<lambda>a b. sint (FileInfo.Size (snd b)) \<le> sint (FileInfo.Size (snd a))) es"

definition sorts :: "(inventory \<Rightarrow> inventory) \<Rightarrow> bool" where
  "sorts f \<longleftrightarrow> (\<forall>xs. mset (f xs) = mset xs \<and> sorted_by_size (f xs))"

text \<open>One such order: the stable sort by descending size.\<close>

definition stable_sort :: "inventory \<Rightarrow> inventory" where
  "stable_sort es = sort_key (\<lambda>a. - sint (FileInfo.Size (snd a))) es"

section \<open>Run\<close>

text \<open>The body of the loop over the lines of a worker's standard error: the state is
  the flag \<open>errorOccured\<close> and what the worker has written to \<open>os.Stderr\<close>.\<close>

definition handle_line :: "string \<Rightarrow> bool \<times> string list \<Rightarrow> bool \<times> string list" where
  "handle_line text s =
     (let line = text @ [nl] in
      if HasSuffix line NotOlderError \<or> HasSuffix line AlreadyExists then s
      else if line = ExitError then (True, snd s)
      else (fst s, snd s @ [TrimSuffix line [nl]]))"

text \<open>
  A worker: whether it set the flag, and what it wrote. The arguments of its process (the
  archive, the options and the file names with their glob characters escaped) are not in
  the model: what the process does is given by the environment. Every write to
  \<open>os.Stderr\<close> is made under the mutex, so that it is one element of the output.
\<close>

definition worker :: "env \<Rightarrow> nat \<Rightarrow> string list \<Rightarrow> bool \<times> string list" where
  "worker e idx chunk =
     (let started = [''Thread '' @ itoa (int idx) @ '' started with ''
                      @ itoa (int (length chunk)) @ '' files to process'' @ [nl]]
      in case extraction_of e idx of
           ExtractPipeFails err \<Rightarrow>
             (False, started @ [''Error creating stderr pipe: '' @ err @ [nl]])
         | ExtractStartFails err \<Rightarrow>
             (False, started @ [''Error starting tarsnap: '' @ err @ [nl]])
         | ExtractRuns lines \<Rightarrow>
             let (flag, out) = fold handle_line lines (False, started)
             in (flag, out @ [''Thread '' @ itoa (int idx) @ '' completed in '' @ elapsed e idx
                               @ '' with '' @ itoa (int (length chunk))
                               @ '' files processed'' @ [nl]]))"

text \<open>
  The outcome of \<open>Run\<close>: what the main goroutine wrote before it started the workers,
  what each worker wrote (the workers run concurrently, so the writes of different
  workers interleave in an order that the program does not fix), and what the main
  goroutine wrote after \<open>wg.Wait()\<close>.
\<close>

record outcome =
  main_out :: "string list"
  worker_out :: "string list list"
  final_out :: "string list"

definition Run :: "env \<Rightarrow> GoSnapper \<Rightarrow> world \<Rightarrow> (panic + outcome) \<times> GoSnapper" where
  "Run e rs w =
     (case FileGroups e rs w of
        (Inl p, rs', w') \<Rightarrow> (Inl p, rs')
      | (Inr fileGroups, rs', w') \<Rightarrow>
          let w1 = Fprintf w' (''Creating '' @ itoa (int (length fileGroups))
                                @ '' worker threads for file extraction'' @ [nl]);
              ws = map (\<lambda>(idx, chunk). worker e idx chunk) (enumerate 0 fileGroups);
              flag = (errorOccured rs' \<or> list_ex fst ws)
          in (Inr \<lparr>main_out = stderr w1, worker_out = map snd ws,
                   final_out = (if flag then [ExitError] else [])\<rparr>,
              rs'\<lparr>errorOccured := flag\<rparr>))"

section \<open>The names of an inventory\<close>

text \<open>The names of the entries that are not directories, and the names of the
  directories.\<close>

definition file_names :: "inventory \<Rightarrow> string list" where
  "file_names allFiles = filter (\<lambda>n. \<not> HasSuffix n ''/'') (map fst allFiles)"

definition dir_names :: "inventory \<Rightarrow> string list" where
  "dir_names allFiles = filter (\<lambda>n. HasSuffix n ''/'') (map fst allFiles)"

section \<open>The words of the specification\<close>

text \<open>A diagnostic line is benign when it ends with one of the two templates of tarsnap
  that the program suppresses.\<close>

definition benign :: "string \<Rightarrow> bool" where
  "benign line \<longleftrightarrow> (\<exists>p. line = p @ NotOlderError) \<or> (\<exists>p. line = p @ AlreadyExists)"

text \<open>The worker of index \<open>idx\<close> sets the shared flag: its process runs, and one of its lines
  is the template of the delayed error.\<close>

definition sets_flag :: "env \<Rightarrow> nat \<Rightarrow> bool" where
  "sets_flag e idx \<longleftrightarrow>
     (\<exists>lines. extraction_of e idx = ExtractRuns lines \<and> (\<exists>t\<in>set lines. t @ [nl] = ExitError))"

text \<open>
  The empty directories as the specification describes them, to be compared with
  \<open>EmptyDirs\<close>: the immediate parent of an entry is its name up to and including the last
  separator; a directory is a proper ancestor of another when its name, which ends with
  the separator, is a proper prefix of the other name. The empty directories are the
  directories that are neither.
\<close>

definition immediate_parent :: "string \<Rightarrow> string" where
  "immediate_parent f = rev (dropWhile (\<lambda>c. c \<noteq> CHR ''/'') (rev f))"

definition proper_ancestor :: "string \<Rightarrow> string \<Rightarrow> bool" where
  "proper_ancestor d d' \<longleftrightarrow> d \<noteq> d' \<and> HasSuffix d ''/'' \<and> take (length d) d' = d"

definition spec_EmptyDirs :: "string list \<Rightarrow> string list \<Rightarrow> string list" where
  "spec_EmptyDirs fileNames dirs =
     filter (\<lambda>d. \<not> list_ex (\<lambda>f. immediate_parent f = d) fileNames
                \<and> \<not> list_ex (\<lambda>d'. proper_ancestor d d') dirs)
       (remdups dirs)"

text \<open>
  The full set of extraction targets of the specification: the entries that are not
  directories, and the empty directories as the specification describes them.
\<close>

definition targets :: "inventory \<Rightarrow> string set" where
  "targets allFiles =
     set (file_names allFiles)
       \<union> set (spec_EmptyDirs (file_names allFiles) (dir_names allFiles))"

text \<open>
  The parent of every file is found as it is written: the directory that \<open>EmptyDirs\<close>
  deletes for the file, the cleaned \<open>filepath.Dir\<close> with a separator, is the immediate
  parent of the file, or neither of the two is a directory of the inventory.
\<close>

definition parents_as_written :: "inventory \<Rightarrow> bool" where
  "parents_as_written allFiles \<longleftrightarrow>
     (\<forall>f\<in>set (file_names allFiles).
        Dir f @ ''/'' = immediate_parent f
        \<or> (Dir f @ ''/'' \<notin> set (dir_names allFiles)
            \<and> immediate_parent f \<notin> set (dir_names allFiles)))"

section \<open>Example inputs\<close>

text \<open>Concrete options, environments and entries, at which the theorems below are
  evaluated.\<close>

definition ex_opts :: "int \<Rightarrow> Options" where
  "ex_opts n = \<lparr>Directory = [], ThreadPoolSize = n, TarsnapOptions = [], Previous = None\<rparr>"

definition ex_now :: Time where
  "ex_now = \<lparr>t_year = 2024, t_month = 6, t_day = 15, t_hour = 12, t_min = 0, t_sec = 0, t_nsec = 0\<rparr>"

definition ex_env :: "listing \<Rightarrow> extraction \<Rightarrow> env" where
  "ex_env l x = \<lparr>listing_of = l, now_at = (\<lambda>k. ex_now), Year = t_year, sort_Slice = stable_sort,
     extraction_of = (\<lambda>i. x), elapsed = (\<lambda>i. ''1s'')\<rparr>"

definition ex_world :: world where
  "ex_world = \<lparr>stderr = [], ticks = 0\<rparr>"

definition ex_info :: "64 word \<Rightarrow> FileInfo" where
  "ex_info n = \<lparr>FileInfo.Size = n, Date = ex_now\<rparr>"

definition ex_four :: inventory where
  "ex_four = [(''s1'', ex_info 10), (''big'', ex_info 100), (''s2'', ex_info 10), (''s3'', ex_info 10)]"

definition ex_five :: inventory where
  "ex_five = [(''b'', ex_info 10), (''a'', ex_info 100), (''c'', ex_info 10), (''d'', ex_info 10),
              (''e/'', ex_info 7)]"

text \<open>The listing of an archive that was made from \<open>"."\<close>: a directory and a file in it.\<close>

definition ex_dot :: inventory where
  "ex_dot = [(''./a/'', ex_info 0), (''./a/c.txt'', ex_info 5)]"

definition ex_rs :: "inventory \<Rightarrow> inventory option \<Rightarrow> GoSnapper" where
  "ex_rs allFiles prev =
     (NewGoSnapper ''archive'' ((ex_opts 2)\<lparr>Previous := prev\<rparr>))\<lparr>files := Some allFiles\<rparr>"

definition ex_idle :: env where
  "ex_idle = ex_env (ListRuns [] None) (ExtractRuns [])"

definition ex_line_short :: string where
  "ex_line_short = ''total 3''"

definition ex_line_year :: string where
  "ex_line_year = ''-rw-r--r-- 0 root root 5 Jan 1 2020 f  g''"

definition ex_line_time :: string where
  "ex_line_time = ''-rw-r--r-- 0 root root 100 Jul 1 10:30 a/b''"

text \<open>A line in which a no-break space, the bytes C2 A0 of U+00A0, stands between the first
  two fields.\<close>

definition ex_line_nbsp :: string where
  "ex_line_nbsp = ''-rw-r--r--'' @ [CHR 0xC2, CHR 0xA0] @ ''0 root root 5 Jan 1 2020 f''"

definition ex_line_neg :: string where
  "ex_line_neg = ''-rw-r--r-- 0 root root -5 Jan 1 2020 f''"

definition ex_date :: "int \<Rightarrow> int \<Rightarrow> int \<Rightarrow> int \<Rightarrow> int \<Rightarrow> Time" where
  "ex_date y m d h mi = \<lparr>t_year = y, t_month = m, t_day = d, t_hour = h, t_min = mi,
                          t_sec = 0, t_nsec = 0\<rparr>"

definition ex_stderr :: "string list" where
  "ex_stderr = [''x: Already exists'', ''tarsnap: Error exit delayed from previous errors.'',
                ''hello'', ''File on disk is not older; skipping.'']"

definition ex_extracting :: env where
  "ex_extracting = ex_env (ListRuns [] None) (ExtractRuns ex_stderr)"

definition ex_broken :: env where
  "ex_broken = ex_env (ListPipeFails ''boom'') (ExtractRuns [])"

definition ex_outcome :: outcome where
  "ex_outcome =
     \<lparr>main_out = [''Creating 2 worker threads for file extraction'' @ [nl]],
      worker_out =
        [[''Thread 0 started with 1 files to process'' @ [nl], ''hello'',
          ''Thread 0 completed in 1s with 1 files processed'' @ [nl]],
         [''Thread 1 started with 3 files to process'' @ [nl], ''hello'',
          ''Thread 1 completed in 1s with 3 files processed'' @ [nl]]],
      final_out = [ExitError]\<rparr>"

definition ex_listing :: env where
  "ex_listing = ex_env (ListRuns [ex_line_short, ex_line_year, ex_line_time] None) (ExtractRuns [])"

section \<open>Suffixes\<close>

lemma HasSuffix_iff: "HasSuffix s suffix \<longleftrightarrow> (\<exists>p. s = p @ suffix)"
proof
  assume "HasSuffix s suffix"
  then have "s = take (length s - length suffix) s @ suffix"
    by (metis HasSuffix_def append_take_drop_id)
  then show "\<exists>p. s = p @ suffix" ..
next
  assume "\<exists>p. s = p @ suffix"
  then show "HasSuffix s suffix" by (auto simp: HasSuffix_def)
qed

section \<open>The inventory is a map\<close>

lemma scan_line_eq:
  "scan_line e entry (m, k) =
     (case fst (parse_entry e k entry) of
        None \<Rightarrow> (m, snd (parse_entry e k entry))
      | Some (name, info) \<Rightarrow> (AList.update name info m, snd (parse_entry e k entry)))"
  by (cases "parse_entry e k entry") (auto simp: scan_line_def split: option.splits)

lemma scan_fold_distinct:
  "distinct (map fst m) \<Longrightarrow> distinct (map fst (fst (fold (scan_line e) lines (m, k))))"
proof (induction lines arbitrary: m k)
  case Nil
  then show ?case by simp
next
  case (Cons entry lines)
  obtain m' k' where step: "scan_line e entry (m, k) = (m', k')"
    by (cases "scan_line e entry (m, k)")
  have "distinct (map fst m')"
    using step Cons.prems
    by (cases "fst (parse_entry e k entry)") (auto simp: scan_line_eq distinct_update)
  from Cons.IH [OF this] step show ?case by simp
qed

lemma GetFiles_distinct:
  assumes "distinct_keys rs" "fst (GetFiles e rs w) = Some allFiles"
  shows "distinct (map fst allFiles)"
proof (cases "files rs")
  case (Some fs)
  with assms show ?thesis by (simp add: GetFiles_def distinct_keys_def)
next
  case None
  show ?thesis
  proof (cases "listing_of e")
    case (ListPipeFails err)
    with None assms(2) show ?thesis by (simp add: GetFiles_def)
  next
    case (ListStartFails err)
    with None assms(2) show ?thesis by (simp add: GetFiles_def)
  next
    case (ListRuns lines waited)
    with None assms(2) have "allFiles = fst (fold (scan_line e) lines ([], ticks w))"
      by (simp add: GetFiles_def Let_def split: prod.splits)
    then show ?thesis using scan_fold_distinct [of "[]" e lines "ticks w"] by simp
  qed
qed

section \<open>The partitioner\<close>

subsection \<open>The smallest group and the distribution loop\<close>

lemma fold_min_index:
  fixes key :: "nat \<Rightarrow> int"
  defines "b n \<equiv> fold (\<lambda>i best. if key i < key best then i else best) [0..<n] 0"
  shows "(b n < n \<or> b n = 0) \<and> (\<forall>i<n. key (b n) \<le> key i) \<and> (\<forall>i<b n. key (b n) < key i)"
proof (induction n)
  case 0
  show ?case by (simp add: b_def)
next
  case (Suc n)
  have step: "b (Suc n) = (if key n < key (b n) then n else b n)"
    by (simp add: b_def)
  show ?case
  proof (cases "key n < key (b n)")
    case True
    with Suc step show ?thesis
      by (auto simp: less_Suc_eq)
  next
    case False
    with Suc step show ?thesis
      by (auto simp: less_Suc_eq)
  qed
qed

lemma smallestGroup_props:
  assumes "groups \<noteq> []"
  shows "smallestGroup groups < length groups"
    and "\<forall>i<length groups. sint (Group.Size (groups ! smallestGroup groups)) \<le> sint (Group.Size (groups ! i))"
    and "\<forall>i. i < smallestGroup groups \<longrightarrow> sint (Group.Size (groups ! smallestGroup groups)) < sint (Group.Size (groups ! i))"
  using fold_min_index [of "\<lambda>i. sint (Group.Size (groups ! i))" "length groups"] assms
  unfolding smallestGroup_def by auto

lemma assign_Inr:
  "groups \<noteq> [] \<Longrightarrow>
   assign prev groups entry =
     Inr (groups[smallestGroup groups :=
            Add (groups ! smallestGroup groups) (fst entry) (effective_size prev entry)])"
  by (simp add: assign_def Let_def)

lemma distribute_total:
  "groups \<noteq> [] \<Longrightarrow> \<exists>gs. distribute prev groups es = Inr gs \<and> length gs = length groups"
proof (induction es arbitrary: groups)
  case Nil
  then show ?case by simp
next
  case (Cons a es)
  let ?g = "groups[smallestGroup groups := Add (groups ! smallestGroup groups) (fst a) (effective_size prev a)]"
  have "?g \<noteq> []" using Cons.prems by simp
  from Cons.IH [OF this] Cons.prems show ?case
    by (auto simp: assign_Inr)
qed

lemma mset_concat_update:
  "i < length gs \<Longrightarrow>
   mset (concat (map Files (gs[i := Add (gs ! i) n s]))) = add_mset n (mset (concat (map Files gs)))"
proof (induction gs arbitrary: i)
  case Nil
  then show ?case by simp
next
  case (Cons g gs)
  then show ?case by (cases i) (auto simp: Add_def)
qed

lemma distribute_mset:
  "groups \<noteq> [] \<Longrightarrow> distribute prev groups es = Inr gs \<Longrightarrow>
   mset (concat (map Files gs)) = mset (concat (map Files groups)) + mset (map fst es)"
proof (induction es arbitrary: groups)
  case Nil
  then show ?case by simp
next
  case (Cons a es)
  let ?g = "groups[smallestGroup groups := Add (groups ! smallestGroup groups) (fst a) (effective_size prev a)]"
  have ne: "?g \<noteq> []" using Cons.prems by simp
  have d: "distribute prev ?g es = Inr gs"
    using Cons.prems by (simp add: assign_Inr)
  have "mset (concat (map Files gs)) = mset (concat (map Files ?g)) + mset (map fst es)"
    by (rule Cons.IH [OF ne d])
  then show ?case
    using smallestGroup_props(1) [OF Cons.prems(1)] by (simp add: mset_concat_update)
qed

lemma distribute_weight:
  "groups \<noteq> [] \<Longrightarrow> distribute prev groups es = Inr gs \<Longrightarrow>
   \<forall>a\<in>set es. wt (fst a) = effective_size prev a \<Longrightarrow>
   \<forall>g\<in>set groups. Group.Size g = sum_list (map wt (Files g)) \<Longrightarrow>
   \<forall>g\<in>set gs. Group.Size g = sum_list (map wt (Files g))"
proof (induction es arbitrary: groups)
  case Nil
  then show ?case by simp
next
  case (Cons a es)
  let ?b = "smallestGroup groups"
  let ?g = "groups[?b := Add (groups ! ?b) (fst a) (effective_size prev a)]"
  have ne: "?g \<noteq> []" using Cons.prems by simp
  have d: "distribute prev ?g es = Inr gs"
    using Cons.prems by (simp add: assign_Inr)
  have b: "?b < length groups" by (rule smallestGroup_props(1) [OF Cons.prems(1)])
  have new: "Group.Size (Add (groups ! ?b) (fst a) (effective_size prev a))
           = sum_list (map wt (Files (Add (groups ! ?b) (fst a) (effective_size prev a))))"
    using Cons.prems(3,4) b by (simp add: Add_def)
  have inv: "\<forall>g\<in>set ?g. Group.Size g = sum_list (map wt (Files g))"
  proof
    fix g assume "g \<in> set ?g"
    then have "g = Add (groups ! ?b) (fst a) (effective_size prev a) \<or> g \<in> set groups"
      using set_update_subset_insert [of groups ?b] by auto
    then show "Group.Size g = sum_list (map wt (Files g))"
      using new Cons.prems(4) by auto
  qed
  show ?case
    by (rule Cons.IH [OF ne d _ inv]) (use Cons.prems(3) in simp)
qed

lemma concat_file_lists: "concat (file_lists gs) = concat (map Files gs)"
  by (induction gs) (auto simp: file_lists_def)

lemma length_file_lists: "length (file_lists gs) \<le> length gs"
  by (simp add: file_lists_def)

lemma file_lists_nonempty: "fs \<in> set (file_lists gs) \<Longrightarrow> fs \<noteq> []"
  by (auto simp: file_lists_def)

lemma maxAlloc_pos: "0 < maxAlloc"
  by (simp add: maxAlloc_def)

lemma makeslice_groups: "0 \<le> n \<Longrightarrow> 8 * n \<le> maxAlloc \<Longrightarrow> makeslice 8 n n = None"
  by (simp add: makeslice_def)

lemma makeslice_result: "0 \<le> n \<Longrightarrow> 24 * n \<le> maxAlloc \<Longrightarrow> makeslice 24 0 n = None"
  using maxAlloc_pos by (simp add: makeslice_def)

lemma makeslice_result_large:
  "maxAlloc < 24 * n \<Longrightarrow> makeslice 24 0 n = Some MakeSliceCapOutOfRange"
  using maxAlloc_pos by (simp add: makeslice_def)

lemma new_groups_made:
  "0 \<le> n \<Longrightarrow> 8 * n \<le> maxAlloc \<Longrightarrow>
   new_groups n = Inr (replicate (nat n) \<lparr>Files = [], Group.Size = 0\<rparr>)"
  by (simp add: new_groups_def makeslice_groups)

lemma new_groups_negative: "n < 0 \<Longrightarrow> new_groups n = Inl MakeSliceLenOutOfRange"
  by (simp add: new_groups_def makeslice_def)

lemma new_groups_large: "maxAlloc < 8 * n \<Longrightarrow> new_groups n = Inl MakeSliceLenOutOfRange"
  by (simp add: new_groups_def makeslice_def)

lemma FileGroups_groups_panics:
  "new_groups (tpsize rs) = Inl p \<Longrightarrow> FileGroups e rs w = (Inl p, rs, w)"
  by (simp add: FileGroups_def FileGroups_groups_def)

lemma FileGroups_groups_nonneg:
  assumes "0 < tpsize rs" "8 * tpsize rs \<le> maxAlloc"
  shows "\<exists>gs. fst (FileGroups_groups e rs w) = Inr gs \<and> length gs = nat (tpsize rs)"
proof -
  obtain tg rs' w' where f: "FilesToExtract e rs w = (tg, rs', w')"
    by (cases "FilesToExtract e rs w") auto
  let ?g = "replicate (nat (tpsize rs)) \<lparr>Files = [], Group.Size = 0\<rparr>"
  have "?g \<noteq> []" using assms by simp
  from distribute_total [OF this, of "Previous (options rs)" "sort_Slice e tg"]
  show ?thesis using assms f
    by (auto simp: FileGroups_groups_def new_groups_made)
qed

text \<open>
  Claim C10. \<open>NewGoSnapper\<close> puts the default of 10 workers in the place of a
  \<open>ThreadPoolSize\<close> of 0 and of no other value; a negative \<open>ThreadPoolSize\<close> is kept, and
  \<open>FileGroups\<close> then panics when it allocates the groups. With a \<open>ThreadPoolSize\<close> that is
  not negative and that \<open>make\<close> accepts for both slices, \<open>24 * ThreadPoolSize \<le> maxAlloc\<close>,
  \<open>FileGroups\<close> returns its groups; with a larger one it panics as well, at the first
  \<open>make\<close> when the pointers of the groups exceed \<open>maxAlloc\<close> and at the second otherwise.
\<close>

theorem NewGoSnapper_pool_size:
  "(ThreadPoolSize opts = 0 \<longrightarrow> tpsize (NewGoSnapper a opts) = 10) \<and>
   (ThreadPoolSize opts \<noteq> 0 \<longrightarrow> tpsize (NewGoSnapper a opts) = ThreadPoolSize opts) \<and>
   (ThreadPoolSize opts < 0 \<longrightarrow>
      fst (FileGroups e (NewGoSnapper a opts) w) = Inl MakeSliceLenOutOfRange) \<and>
   (0 \<le> ThreadPoolSize opts \<and> 24 * ThreadPoolSize opts \<le> maxAlloc \<longrightarrow>
      (\<exists>r. fst (FileGroups e (NewGoSnapper a opts) w) = Inr r)) \<and>
   (maxAlloc < 8 * ThreadPoolSize opts \<longrightarrow>
      fst (FileGroups e (NewGoSnapper a opts) w) = Inl MakeSliceLenOutOfRange) \<and>
   (8 * ThreadPoolSize opts \<le> maxAlloc \<and> maxAlloc < 24 * ThreadPoolSize opts \<longrightarrow>
      fst (FileGroups e (NewGoSnapper a opts) w) = Inl MakeSliceCapOutOfRange)"
proof -
  let ?rs = "NewGoSnapper a opts"
  have size0: "ThreadPoolSize opts = 0 \<Longrightarrow> tpsize ?rs = 10"
    by (simp add: NewGoSnapper_def ThreadPoolDefaultSize_def)
  have size1: "ThreadPoolSize opts \<noteq> 0 \<Longrightarrow> tpsize ?rs = ThreadPoolSize opts"
    by (simp add: NewGoSnapper_def)
  have neg: "fst (FileGroups e ?rs w) = Inl MakeSliceLenOutOfRange"
    if "ThreadPoolSize opts < 0"
  proof -
    have "new_groups (tpsize ?rs) = Inl MakeSliceLenOutOfRange"
      using that size1 by (simp add: new_groups_negative)
    then show ?thesis by (simp add: FileGroups_groups_panics)
  qed
  have pos: "\<exists>r. fst (FileGroups e ?rs w) = Inr r"
    if "0 \<le> ThreadPoolSize opts \<and> 24 * ThreadPoolSize opts \<le> maxAlloc"
  proof -
    have k: "0 < tpsize ?rs" "24 * tpsize ?rs \<le> maxAlloc"
      using that size0 size1 by (cases "ThreadPoolSize opts = 0"; simp add: maxAlloc_def)+
    then have "8 * tpsize ?rs \<le> maxAlloc" by simp
    from FileGroups_groups_nonneg [OF k(1) this, of e w]
    obtain gs where "fst (FileGroups_groups e ?rs w) = Inr gs" by blast
    moreover have "makeslice 24 0 (tpsize ?rs) = None"
      using k by (simp add: makeslice_result)
    ultimately show ?thesis
      by (cases "FileGroups_groups e ?rs w") (auto simp: FileGroups_def)
  qed
  have large: "fst (FileGroups e ?rs w) = Inl MakeSliceLenOutOfRange"
    if "maxAlloc < 8 * ThreadPoolSize opts"
  proof -
    have "ThreadPoolSize opts \<noteq> 0" using that maxAlloc_pos by auto
    then have "new_groups (tpsize ?rs) = Inl MakeSliceLenOutOfRange"
      using that size1 by (simp add: new_groups_large)
    then show ?thesis by (simp add: FileGroups_groups_panics)
  qed
  have mid: "fst (FileGroups e ?rs w) = Inl MakeSliceCapOutOfRange"
    if "8 * ThreadPoolSize opts \<le> maxAlloc \<and> maxAlloc < 24 * ThreadPoolSize opts"
  proof -
    have n: "ThreadPoolSize opts \<noteq> 0" using that maxAlloc_pos by auto
    have k: "0 < tpsize ?rs" "8 * tpsize ?rs \<le> maxAlloc" "maxAlloc < 24 * tpsize ?rs"
      using that maxAlloc_pos size1 [OF n] by auto
    from FileGroups_groups_nonneg [OF k(1,2), of e w]
    obtain gs where "fst (FileGroups_groups e ?rs w) = Inr gs" by blast
    moreover have "makeslice 24 0 (tpsize ?rs) = Some MakeSliceCapOutOfRange"
      using k(3) by (rule makeslice_result_large)
    ultimately show ?thesis
      by (cases "FileGroups_groups e ?rs w") (auto simp: FileGroups_def)
  qed
  from size0 size1 neg pos large mid show ?thesis by blast
qed

theorem NewGoSnapper_pool_size_witness:
  "tpsize (NewGoSnapper ''archive'' (ex_opts 0)) = 10 \<and>
   tpsize (NewGoSnapper ''archive'' (ex_opts (- 1))) = - 1 \<and>
   fst (FileGroups ex_idle (NewGoSnapper ''archive'' (ex_opts (- 1))) ex_world)
     = Inl MakeSliceLenOutOfRange \<and>
   24 * ThreadPoolSize (ex_opts 3) \<le> maxAlloc \<and>
   (\<exists>r. fst (FileGroups ex_idle (NewGoSnapper ''archive'' (ex_opts 3)) ex_world) = Inr r) \<and>
   maxAlloc < 8 * ThreadPoolSize (ex_opts (2 ^ 62)) \<and>
   fst (FileGroups ex_idle (NewGoSnapper ''archive'' (ex_opts (2 ^ 62))) ex_world)
     = Inl MakeSliceLenOutOfRange \<and>
   8 * ThreadPoolSize (ex_opts (2 ^ 45)) \<le> maxAlloc \<and>
   maxAlloc < 24 * ThreadPoolSize (ex_opts (2 ^ 45)) \<and>
   fst (FileGroups ex_idle (NewGoSnapper ''archive'' (ex_opts (2 ^ 45))) ex_world)
     = Inl MakeSliceCapOutOfRange"
  using NewGoSnapper_pool_size [of "ex_opts 0" "''archive''"]
        NewGoSnapper_pool_size [of "ex_opts (- 1)" "''archive''" ex_idle ex_world]
        NewGoSnapper_pool_size [of "ex_opts 3" "''archive''" ex_idle ex_world]
        NewGoSnapper_pool_size [of "ex_opts (2 ^ 62)" "''archive''" ex_idle ex_world]
        NewGoSnapper_pool_size [of "ex_opts (2 ^ 45)" "''archive''" ex_idle ex_world]
  by (simp add: ex_opts_def maxAlloc_def)

lemma Add_eq: "Add g n s = \<lparr>Files = Files g @ [n], Group.Size = Group.Size g + s\<rparr>"
  by (cases g) (simp add: Add_def)



subsection \<open>The entries that FilesToExtract yields\<close>

lemma update_fresh: "k \<notin> fst ` set al \<Longrightarrow> AList.update k v al = al @ [(k, v)]"
  by (induction al) auto

lemma separate_fold:
  "distinct (map fst xs) \<Longrightarrow> fst ` set xs \<inter> fst ` set fs = {} \<Longrightarrow>
   fold (\<lambda>(name, info) (dirs, filesToExtract).
           if HasSuffix name ''/'' then (dirs @ [name], filesToExtract)
           else (dirs, AList.update name info filesToExtract)) xs (ds, fs)
   = (ds @ filter (\<lambda>n. HasSuffix n ''/'') (map fst xs),
      fs @ filter (\<lambda>a. \<not> HasSuffix (fst a) ''/'') xs)"
proof (induction xs arbitrary: ds fs)
  case Nil
  then show ?case by simp
next
  case (Cons x xs)
  obtain n i where x: "x = (n, i)" by (cases x)
  show ?case
  proof (cases "HasSuffix n ''/''")
    case True
    have "fst ` set xs \<inter> fst ` set fs = {}" using Cons.prems by auto
    with Cons.IH [where ds = "ds @ [n]" and fs = fs] Cons.prems True x show ?thesis by simp
  next
    case False
    have fresh: "n \<notin> fst ` set fs" using Cons.prems x by auto
    have "fst ` set xs \<inter> fst ` set (fs @ [(n, i)]) = {}"
      using Cons.prems x by auto
    with Cons.IH [where ds = ds and fs = "fs @ [(n, i)]"] Cons.prems False x fresh show ?thesis
      by (simp add: update_fresh)
  qed
qed

lemma separate_eq:
  "distinct (map fst allFiles) \<Longrightarrow>
   separate allFiles = (dir_names allFiles, filter (\<lambda>a. \<not> HasSuffix (fst a) ''/'') allFiles)"
  using separate_fold [of allFiles "[]" "[]"] by (simp add: separate_def dir_names_def)

lemma map_fst_filter_files:
  "map fst (filter (\<lambda>a. \<not> HasSuffix (fst a) ''/'') allFiles) = file_names allFiles"
  by (induction allFiles) (auto simp: file_names_def)

lemma fold_update_keys:
  "fst ` set (fold (\<lambda>k m. AList.update k v m) ks al) = set ks \<union> fst ` set al"
  by (induction ks arbitrary: al) (auto simp: dom_update)

lemma fold_update_distinct:
  "distinct (map fst al) \<Longrightarrow> distinct (map fst (fold (\<lambda>k m. AList.update k v m) ks al))"
  by (induction ks arbitrary: al) (auto simp: distinct_update)

lemma FilesToExtract_from_eq:
  "distinct (map fst allFiles) \<Longrightarrow>
   FilesToExtract_from allFiles =
     fold (\<lambda>dir m. AList.update dir \<lparr>FileInfo.Size = 0, Date = zero_Time\<rparr> m)
       (EmptyDirs (file_names allFiles) (dir_names allFiles))
       (filter (\<lambda>a. \<not> HasSuffix (fst a) ''/'') allFiles)"
  by (simp add: FilesToExtract_from_def separate_eq map_fst_filter_files)

lemma FilesToExtract_from_names:
  assumes "distinct (map fst allFiles)"
  shows "set (map fst (FilesToExtract_from allFiles))
           = set (file_names allFiles) \<union> set (EmptyDirs (file_names allFiles) (dir_names allFiles))"
    and "distinct (map fst (FilesToExtract_from allFiles))"
proof -
  let ?fs = "filter (\<lambda>a. \<not> HasSuffix (fst a) ''/'') allFiles"
  have d: "distinct (map fst ?fs)" using assms by (simp add: distinct_map_filter)
  have k: "fst ` set ?fs = set (file_names allFiles)"
    using map_fst_filter_files [of allFiles] by (metis set_map)
  show "set (map fst (FilesToExtract_from allFiles))
           = set (file_names allFiles) \<union> set (EmptyDirs (file_names allFiles) (dir_names allFiles))"
    using k by (auto simp: FilesToExtract_from_eq [OF assms] fold_update_keys)
  show "distinct (map fst (FilesToExtract_from allFiles))"
    using d by (simp add: FilesToExtract_from_eq [OF assms] fold_update_distinct)
qed

lemma removeAll_fold_set:
  "set (fold (\<lambda>x m. removeAll (g x) m) xs m) = set m - g ` set xs"
  by (induction xs arbitrary: m) auto

lemma removeAll_fold_distinct:
  "distinct m \<Longrightarrow> distinct (fold (\<lambda>x m. removeAll (g x) m) xs m)"
  by (induction xs arbitrary: m) (auto simp: distinct_removeAll)

lemma removeAll_fold2_set:
  "set (fold (\<lambda>d m. fold (\<lambda>p m'. removeAll p m') (h d) m) ds m) = set m - (\<Union>d\<in>set ds. set (h d))"
proof (induction ds arbitrary: m)
  case Nil
  then show ?case by simp
next
  case (Cons d ds)
  have "set (fold (\<lambda>p m'. removeAll p m') (h d) m) = set m - set (h d)"
    using removeAll_fold_set [of "\<lambda>p. p" "h d" m] by simp
  with Cons show ?case by auto
qed

lemma removeAll_fold2_distinct:
  "distinct m \<Longrightarrow> distinct (fold (\<lambda>d m. fold (\<lambda>p m'. removeAll p m') (h d) m) ds m)"
proof (induction ds arbitrary: m)
  case Nil
  then show ?case by simp
next
  case (Cons d ds)
  have "distinct (fold (\<lambda>p m'. removeAll p m') (h d) m)"
    using removeAll_fold_distinct [of m "\<lambda>p. p" "h d"] Cons.prems by simp
  with Cons show ?case by simp
qed

lemma EmptyDirs_set:
  "set (EmptyDirs fileNames dirs) =
     set dirs - (\<lambda>f. Dir f @ ''/'') ` set fileNames - (\<Union>d\<in>set dirs. set (parentDirs d))"
  by (simp add: EmptyDirs_def Let_def removeAll_fold2_set removeAll_fold_set)

lemma EmptyDirs_distinct: "distinct (EmptyDirs fileNames dirs)"
  by (simp add: EmptyDirs_def Let_def removeAll_fold2_distinct removeAll_fold_distinct)

subsection \<open>The partition\<close>

lemma sorts_stable_sort: "sorts stable_sort"
proof -
  have "sorted_by_size (stable_sort xs)" for xs
  proof -
    have "sorted (map (\<lambda>a. - sint (FileInfo.Size (snd a))) (stable_sort xs))"
      by (simp add: stable_sort_def)
    then show ?thesis by (simp add: sorted_map sorted_by_size_def)
  qed
  then show ?thesis by (simp add: sorts_def stable_sort_def)
qed

lemma EmptyDirs_no_dirs: "EmptyDirs fileNames [] = []"
  using EmptyDirs_set [of fileNames "[]"] by simp

lemma FilesToExtract_from_files_only:
  assumes "distinct (map fst allFiles)" "\<forall>x\<in>set allFiles. \<not> HasSuffix (fst x) ''/''"
  shows "FilesToExtract_from allFiles = allFiles"
proof -
  have "dir_names allFiles = []" using assms(2) by (auto simp: dir_names_def filter_empty_conv)
  moreover have "filter (\<lambda>a. \<not> HasSuffix (fst a) ''/'') allFiles = allFiles"
    using assms(2) by (simp add: filter_id_conv)
  ultimately show ?thesis
    by (simp add: FilesToExtract_from_eq [OF assms(1)] EmptyDirs_no_dirs)
qed

lemma distribute_one_large:
  assumes "FileInfo.Size ia = 100" "FileInfo.Size (snd p) = 10" "FileInfo.Size (snd q) = 10"
    "FileInfo.Size (snd r) = 10"
  shows "distribute None [\<lparr>Files = [], Group.Size = 0\<rparr>, \<lparr>Files = [], Group.Size = 0\<rparr>]
           [(a, ia), p, q, r]
         = Inr [\<lparr>Files = [a], Group.Size = 100\<rparr>, \<lparr>Files = [fst p, fst q, fst r], Group.Size = 30\<rparr>]"
  using assms
  by (simp add: assign_def smallestGroup_def effective_size_def Add_eq upt_rec Let_def)

lemma sorted_four:
  assumes s: "sorted_by_size es"
    and m: "mset es = {#(a, ia), (b, ib), (c, ic), (d, idd)#}"
    and sz: "FileInfo.Size ia = 100" "FileInfo.Size ib = 10" "FileInfo.Size ic = 10"
      "FileInfo.Size idd = 10"
  shows "\<exists>p q r. es = [(a, ia), p, q, r] \<and> mset [p, q, r] = {#(b, ib), (c, ic), (d, idd)#}
           \<and> FileInfo.Size (snd p) = 10 \<and> FileInfo.Size (snd q) = 10 \<and> FileInfo.Size (snd r) = 10"
proof -
  have "size (mset es) = 4" by (simp add: m)
  then have "length es = 4" by simp
  then obtain x p q r where es: "es = [x, p, q, r]"
    by (auto simp: eval_nat_numeral length_Suc_conv)
  have st: "set es = {(a, ia), (b, ib), (c, ic), (d, idd)}"
    using m by (metis set_mset_mset set_mset_add_mset_insert set_mset_empty)
  have big: "\<forall>y\<in>set es. sint (FileInfo.Size (snd y)) \<le> sint (FileInfo.Size (snd x))"
    using s by (auto simp: es sorted_by_size_def)
  have "(a, ia) \<in> set es" using st by simp
  with big have "sint (FileInfo.Size ia) \<le> sint (FileInfo.Size (snd x))" by fastforce
  then have hundred: "100 \<le> sint (FileInfo.Size (snd x))" by (simp add: sz)
  have "x \<in> {(a, ia), (b, ib), (c, ic), (d, idd)}" using st es by auto
  with hundred have x: "x = (a, ia)" by (auto simp: sz)
  have rest: "mset [p, q, r] = {#(b, ib), (c, ic), (d, idd)#}"
    using m by (simp add: es x)
  have "set [p, q, r] = {(b, ib), (c, ic), (d, idd)}"
    using rest by (metis set_mset_mset set_mset_add_mset_insert set_mset_empty)
  then have "\<forall>y\<in>set [p, q, r]. FileInfo.Size (snd y) = 10"
    by (auto simp: sz)
  with es x rest show ?thesis by simp
qed

lemma ex_FileGroups_groups:
  "fst (FileGroups_groups ex_idle (ex_rs ex_five (Some [(''c'', ex_info 10)])) ex_world)
     = Inr [\<lparr>Files = [''a''], Group.Size = 100\<rparr>,
            \<lparr>Files = [''b'', ''c'', ''d'', ''e/''], Group.Size = 20\<rparr>]"
  by code_simp

lemma sint_add_no_overflow:
  fixes a b :: "64 word"
  assumes "0 \<le> sint a" "0 \<le> sint b" "sint a + sint b < 2 ^ 63"
  shows "sint (a + b) = sint a + sint b"
  using assms by (simp add: sint_word_add signed_take_bit_int_eq_self)

lemma sum_list_sint_nonneg:
  fixes ws :: "64 word list"
  shows "\<forall>x\<in>set ws. 0 \<le> sint x \<Longrightarrow> 0 \<le> sum_list (map sint ws)"
  by (induction ws) auto

lemma sint_sum_list:
  fixes ws :: "64 word list"
  assumes "\<forall>x\<in>set ws. 0 \<le> sint x" "sum_list (map sint ws) < 2 ^ 63"
  shows "sint (sum_list ws) = sum_list (map sint ws)"
  using assms
proof (induction ws)
  case Nil
  then show ?case by simp
next
  case (Cons x ws)
  have nn: "0 \<le> sum_list (map sint ws)"
    using Cons.prems(1) by (simp add: sum_list_sint_nonneg)
  have x: "0 \<le> sint x" using Cons.prems(1) by simp
  have ih: "sint (sum_list ws) = sum_list (map sint ws)"
    using Cons.IH Cons.prems x by simp
  have "sint (x + sum_list ws) = sint x + sint (sum_list ws)"
    using x nn ih Cons.prems(2) by (intro sint_add_no_overflow) simp_all
  with ih show ?case by simp
qed

lemma sum_list_member_le:
  fixes f :: "'a \<Rightarrow> int"
  assumes "xs \<in> set xss" "\<forall>x\<in>set (concat xss). 0 \<le> f x"
  shows "sum_list (map f xs) \<le> sum_list (map f (concat xss))"
proof -
  from assms(1) obtain as bs where s: "xss = as @ xs # bs"
    by (auto dest: split_list)
  have "0 \<le> sum_list (map f (concat as))" "0 \<le> sum_list (map f (concat bs))"
    using assms(2) s by (auto intro!: sum_list_nonneg) blast+
  then show ?thesis by (simp add: s)
qed

lemma concat_replicate_empty:
  "concat (map Files (replicate n \<lparr>Files = [], Group.Size = 0\<rparr>)) = []"
  by (induction n) auto

lemma sum_list_mset_cong:
  fixes f :: "'a \<Rightarrow> int"
  shows "mset xs = mset ys \<Longrightarrow> sum_list (map f xs) = sum_list (map f ys)"
  by (metis mset_map sum_mset_sum_list)

text \<open>
  Claim C3. For an inventory of four files of the sizes 100, 10, 10 and 10, two workers
  and no previous snapshot, the groups are the file of size 100 alone, of weight 100, and
  the three files of size 10, of weight 30. The entries are taken in the order of descending
  size, and each one joins the group of the smallest accumulated weight, the first of them
  when several are the smallest.
\<close>

theorem FileGroups_100_10_10_10:
  assumes f: "fst (GetFiles e rs w) = Some allFiles"
    and m: "mset allFiles = {#(a, ia), (b, ib), (c, ic), (d, idd)#}"
    and names: "distinct [a, b, c, d]" "\<forall>n\<in>set [a, b, c, d]. \<not> HasSuffix n ''/''"
    and sz: "FileInfo.Size ia = 100" "FileInfo.Size ib = 10" "FileInfo.Size ic = 10"
      "FileInfo.Size idd = 10"
    and k: "tpsize rs = 2"
    and prev: "Previous (options rs) = None"
    and srt: "sorts (sort_Slice e)"
  shows "(\<exists>rest.
      fst (FileGroups_groups e rs w)
        = Inr [\<lparr>Files = [a], Group.Size = 100\<rparr>, \<lparr>Files = rest, Group.Size = 30\<rparr>] \<and>
      fst (FileGroups e rs w) = Inr [[a], rest] \<and>
      mset rest = {#b, c, d#}) \<and>
    sorted_by_size (sort_Slice e (FilesToExtract_from allFiles)) \<and>
    (\<forall>groups. groups \<noteq> [] \<longrightarrow>
       smallestGroup groups < length groups \<and>
       (\<forall>i < length groups. sint (Group.Size (groups ! smallestGroup groups))
                               \<le> sint (Group.Size (groups ! i))) \<and>
       (\<forall>i. i < smallestGroup groups \<longrightarrow>
              sint (Group.Size (groups ! smallestGroup groups)) < sint (Group.Size (groups ! i))))"
proof -
  obtain rs' w' where g: "GetFiles e rs w = (Some allFiles, rs', w')"
    using f by (cases "GetFiles e rs w") auto
  have "mset (map fst allFiles) = image_mset fst {#(a, ia), (b, ib), (c, ic), (d, idd)#}"
    using m by (metis mset_map)
  then have "mset (map fst allFiles) = mset [a, b, c, d]" by simp
  then have dist: "distinct (map fst allFiles)"
    using names(1) by (metis mset_eq_imp_distinct_iff)
  have st: "set allFiles = {(a, ia), (b, ib), (c, ic), (d, idd)}"
    using m by (metis set_mset_mset set_mset_add_mset_insert set_mset_empty)
  have nodir: "\<forall>x\<in>set allFiles. \<not> HasSuffix (fst x) ''/''"
    using names(2) by (auto simp: st)
  have tg: "FilesToExtract_from allFiles = allFiles"
    by (rule FilesToExtract_from_files_only [OF dist nodir])
  let ?es = "sort_Slice e allFiles"
  have sorted: "sorted_by_size ?es" and perm: "mset ?es = mset allFiles"
    using srt by (simp_all add: sorts_def)
  from sorted_four [OF sorted perm [unfolded m] sz]
  obtain p q r where es: "?es = [(a, ia), p, q, r]"
    and rest: "mset [p, q, r] = {#(b, ib), (c, ic), (d, idd)#}"
    and szr: "FileInfo.Size (snd p) = 10" "FileInfo.Size (snd q) = 10" "FileInfo.Size (snd r) = 10"
    by blast
  have d: "distribute None [\<lparr>Files = [], Group.Size = 0\<rparr>, \<lparr>Files = [], Group.Size = 0\<rparr>] ?es
         = Inr [\<lparr>Files = [a], Group.Size = 100\<rparr>, \<lparr>Files = [fst p, fst q, fst r], Group.Size = 30\<rparr>]"
    unfolding es by (rule distribute_one_large [OF sz(1) szr])
  have two: "replicate 2 \<lparr>Files = [], Group.Size = 0\<rparr>
             = [\<lparr>Files = [], Group.Size = 0\<rparr>, \<lparr>Files = [], Group.Size = 0\<rparr>]"
    by (simp add: eval_nat_numeral)
  have ng: "new_groups 2 = Inr [\<lparr>Files = [], Group.Size = 0\<rparr>, \<lparr>Files = [], Group.Size = 0\<rparr>]"
    by (simp add: new_groups_made maxAlloc_def two)
  have mk: "makeslice 24 0 2 = None"
    by (simp add: makeslice_result maxAlloc_def)
  have fgg: "FileGroups_groups e rs w =
      (Inr [\<lparr>Files = [a], Group.Size = 100\<rparr>, \<lparr>Files = [fst p, fst q, fst r], Group.Size = 30\<rparr>], rs', w')"
    by (simp add: FileGroups_groups_def ng k FilesToExtract_def g tg prev d)
  have fg: "fst (FileGroups e rs w) = Inr [[a], [fst p, fst q, fst r]]"
    by (simp add: FileGroups_def fgg file_lists_def k mk)
  have "mset (map fst [p, q, r]) = image_mset fst {#(b, ib), (c, ic), (d, idd)#}"
    using rest by (metis mset_map)
  then have names': "mset [fst p, fst q, fst r] = {#b, c, d#}" by simp
  have first: "\<exists>rest.
      fst (FileGroups_groups e rs w)
        = Inr [\<lparr>Files = [a], Group.Size = 100\<rparr>, \<lparr>Files = rest, Group.Size = 30\<rparr>] \<and>
      fst (FileGroups e rs w) = Inr [[a], rest] \<and>
      mset rest = {#b, c, d#}"
    using fgg fg names' by (intro exI [of _ "[fst p, fst q, fst r]"]) simp
  have second: "sorted_by_size (sort_Slice e (FilesToExtract_from allFiles))"
    using sorted tg by simp
  from first second smallestGroup_props show ?thesis by blast
qed

theorem FileGroups_100_10_10_10_witness:
  "tpsize (ex_rs ex_four None) = 2 \<and> sorts (sort_Slice ex_idle) \<and>
   (\<exists>rest.
      fst (FileGroups_groups ex_idle (ex_rs ex_four None) ex_world)
        = Inr [\<lparr>Files = [''big''], Group.Size = 100\<rparr>, \<lparr>Files = rest, Group.Size = 30\<rparr>] \<and>
      fst (FileGroups ex_idle (ex_rs ex_four None) ex_world) = Inr [[''big''], rest] \<and>
      mset rest = {#''s1'', ''s2'', ''s3''#})"
proof -
  have h1: "fst (GetFiles ex_idle (ex_rs ex_four None) ex_world) = Some ex_four"
    by (simp add: GetFiles_def ex_rs_def)
  have h2: "mset ex_four = {#(''big'', ex_info 100), (''s1'', ex_info 10), (''s2'', ex_info 10),
                             (''s3'', ex_info 10)#}"
    by (simp add: ex_four_def)
  have h3: "distinct [''big'', ''s1'', ''s2'', ''s3'']" by simp
  have h4: "\<forall>n\<in>set [''big'', ''s1'', ''s2'', ''s3'']. \<not> HasSuffix n ''/''"
    by (simp add: HasSuffix_def)
  have h5: "FileInfo.Size (ex_info 100) = 100" "FileInfo.Size (ex_info 10) = 10"
    by (simp_all add: ex_info_def)
  have h6: "tpsize (ex_rs ex_four None) = 2"
    by (simp add: ex_rs_def NewGoSnapper_def ex_opts_def)
  have h7: "Previous (options (ex_rs ex_four None)) = None"
    by (simp add: ex_rs_def NewGoSnapper_def ex_opts_def)
  have h8: "sorts (sort_Slice ex_idle)"
    by (simp add: ex_idle_def ex_env_def sorts_stable_sort)
  from FileGroups_100_10_10_10 [OF h1 h2 h3 h4 h5(1) h5(2) h5(2) h5(2) h6 h7 h8] h6 h8
  show ?thesis by blast
qed

section \<open>The parser\<close>

lemma parse_digits_nonneg:
  "0 \<le> acc \<Longrightarrow> parse_digits acc s = Some n \<Longrightarrow> 0 \<le> n"
proof (induction s arbitrary: acc)
  case Nil
  then show ?case by simp
next
  case (Cons c s)
  from Cons.prems(2) have d: "isDigit c"
    and r: "parse_digits (acc * 10 + digit_of c) s = Some n"
    by (auto split: if_splits)
  have "0 \<le> acc * 10 + digit_of c"
    using d Cons.prems(1) by (simp add: isDigit_def digit_of_def)
  from Cons.IH [OF this r] show ?case .
qed

lemma ParseInt_Some:
  assumes "ParseInt s = Some v"
  shows "\<exists>un. parse_digits 0 (if hd s = CHR ''+'' \<or> hd s = CHR ''-'' then tl s else s) = Some un \<and>
           (if hd s = CHR ''-'' then un \<le> 2 ^ 63 \<and> v = - un else un < 2 ^ 63 \<and> v = un)"
proof -
  let ?s0 = "if hd s = CHR ''+'' \<or> hd s = CHR ''-'' then tl s else s"
  have a: "(if s = [] then None
            else if ?s0 = [] then None
            else (case parse_digits 0 ?s0 of None \<Rightarrow> None
                  | Some un \<Rightarrow>
                     if \<not> (hd s = CHR ''-'') \<and> un \<ge> 2 ^ 63 then None
                     else if (hd s = CHR ''-'') \<and> un > 2 ^ 63 then None
                     else Some (if (hd s = CHR ''-'') then - un else un))) = Some v"
    using assms unfolding ParseInt_def Let_def .
  then obtain un where un: "parse_digits 0 ?s0 = Some un"
    by (cases "parse_digits 0 ?s0") (simp_all split: if_split_asm)
  show ?thesis
  proof (cases "hd s = CHR ''-''")
    case True
    with a un show ?thesis by (simp split: if_split_asm)
  next
    case False
    with a un show ?thesis by (simp split: if_split_asm)
  qed
qed

lemma ParseInt_range:
  assumes "ParseInt s = Some v"
  shows "- (2 ^ 63) \<le> v \<and> v < 2 ^ 63"
proof -
  from ParseInt_Some [OF assms] obtain un where
    un: "parse_digits 0 (if hd s = CHR ''+'' \<or> hd s = CHR ''-'' then tl s else s) = Some un"
    and v: "if hd s = CHR ''-'' then un \<le> 2 ^ 63 \<and> v = - un else un < 2 ^ 63 \<and> v = un"
    by blast
  have "0 \<le> un" using parse_digits_nonneg [OF _ un] by simp
  with v show ?thesis by (cases "hd s = CHR ''-''") simp_all
qed

lemma ParseInt_nonneg:
  assumes "ParseInt s = Some v" "hd s \<noteq> CHR ''-''"
  shows "0 \<le> v"
proof -
  from ParseInt_Some [OF assms(1)] obtain un where
    un: "parse_digits 0 (if hd s = CHR ''+'' \<or> hd s = CHR ''-'' then tl s else s) = Some un"
    and v: "if hd s = CHR ''-'' then un \<le> 2 ^ 63 \<and> v = - un else un < 2 ^ 63 \<and> v = un"
    by blast
  have "0 \<le> un" using parse_digits_nonneg [OF _ un] by simp
  with v assms(2) show ?thesis by simp
qed

lemma sint_int64:
  "- (2 ^ 63) \<le> v \<Longrightarrow> v < 2 ^ 63 \<Longrightarrow> sint (word_of_int v :: 64 word) = v"
  by (simp add: sint_sbintrunc' signed_take_bit_int_eq_self)

text \<open>The three outcomes of a line.\<close>

lemma parse_entry_short:
  "length (Fields entry) < 9 \<Longrightarrow> parse_entry e k entry = (None, k)"
  by (simp add: parse_entry_def)

lemma parse_entry_no_size:
  "\<not> length (Fields entry) < 9 \<Longrightarrow> ParseInt (Fields entry ! 4) = None \<Longrightarrow>
   parse_entry e k entry = (None, k)"
  by (simp add: parse_entry_def)

lemma parse_entry_no_date:
  "\<not> length (Fields entry) < 9 \<Longrightarrow> ParseInt (Fields entry ! 4) = Some v \<Longrightarrow>
   parse_dateStr (dateStr_of e k (Fields entry)) = None \<Longrightarrow>
   fst (parse_entry e k entry) = None"
  by (simp add: parse_entry_def Let_def)

lemma parse_entry_stored:
  "\<not> length (Fields entry) < 9 \<Longrightarrow> ParseInt (Fields entry ! 4) = Some v \<Longrightarrow>
   parse_dateStr (dateStr_of e k (Fields entry)) = Some date \<Longrightarrow>
   fst (parse_entry e k entry) =
     Some (Join (drop 8 (Fields entry)) '' '',
           \<lparr>FileInfo.Size = word_of_int v,
              Date = (if After date (now_at e (if Contains (Fields entry ! 7) '':'' then Suc k else k))
                      then AddDate_years date (- 1) else date)\<rparr>)"
  by (simp add: parse_entry_def Let_def)

lemma parse_entry_Some:
  assumes "fst (parse_entry e k entry) = Some (name, info)"
  shows "\<exists>v date.
     9 \<le> length (Fields entry) \<and>
     ParseInt (Fields entry ! 4) = Some v \<and>
     parse_dateStr (dateStr_of e k (Fields entry)) = Some date \<and>
     name = Join (drop 8 (Fields entry)) '' '' \<and>
     info = \<lparr>FileInfo.Size = word_of_int v,
              Date = (if After date (now_at e (if Contains (Fields entry ! 7) '':'' then Suc k else k))
                      then AddDate_years date (- 1) else date)\<rparr>"
proof (cases "length (Fields entry) < 9")
  case True
  with assms show ?thesis by (simp add: parse_entry_short)
next
  case long: False
  show ?thesis
  proof (cases "ParseInt (Fields entry ! 4)")
    case None
    with assms long show ?thesis by (simp add: parse_entry_no_size)
  next
    case (Some v)
    show ?thesis
    proof (cases "parse_dateStr (dateStr_of e k (Fields entry))")
      case None
      with assms long Some show ?thesis by (simp add: parse_entry_no_date)
    next
      case (Some date)
      from parse_entry_stored [OF long \<open>ParseInt (Fields entry ! 4) = Some v\<close> Some] assms long
      show ?thesis using Some \<open>ParseInt (Fields entry ! 4) = Some v\<close> by simp
    qed
  qed
qed

lemma update_member:
  "(a, b) \<in> set (AList.update k v al) \<Longrightarrow> (a, b) = (k, v) \<or> (a, b) \<in> set al"
  by (induction al) (auto split: if_splits)

lemma scan_fold_origin:
  "(name, info) \<in> set (fst (fold (scan_line e) lines (m, k))) \<Longrightarrow>
   (name, info) \<in> set m \<or>
   (\<exists>entry\<in>set lines. \<exists>k'. fst (parse_entry e k' entry) = Some (name, info))"
proof (induction lines arbitrary: m k)
  case Nil
  then show ?case by simp
next
  case (Cons entry lines)
  obtain m' k' where step: "scan_line e entry (m, k) = (m', k')"
    by (cases "scan_line e entry (m, k)")
  with Cons.prems have "(name, info) \<in> set (fst (fold (scan_line e) lines (m', k')))"
    by simp
  from Cons.IH [OF this] show ?case
  proof
    assume in': "(name, info) \<in> set m'"
    show ?thesis
    proof (cases "fst (parse_entry e k entry)")
      case None
      with step in' show ?thesis by (simp add: scan_line_eq)
    next
      case (Some p)
      obtain n i where p: "p = (n, i)" by (cases p)
      with step Some have "m' = AList.update n i m" by (simp add: scan_line_eq)
      with in' have "(name, info) = (n, i) \<or> (name, info) \<in> set m"
        by (auto dest: update_member)
      with Some p show ?thesis by auto
    qed
  next
    assume "\<exists>entry\<in>set lines. \<exists>k'. fst (parse_entry e k' entry) = Some (name, info)"
    then show ?thesis by auto
  qed
qed

lemma GetFiles_origin:
  assumes "listing_of e = ListRuns lines waited" "files rs = None"
    "fst (GetFiles e rs w) = Some allFiles" "(name, info) \<in> set allFiles"
  shows "\<exists>entry\<in>set lines. \<exists>k. fst (parse_entry e k entry) = Some (name, info)"
proof -
  have "allFiles = fst (fold (scan_line e) lines ([], ticks w))"
    using assms(1-3) by (simp add: GetFiles_def Let_def split: prod.splits)
  with assms(4) scan_fold_origin [of name info e lines "[]" "ticks w"] show ?thesis
    by simp
qed

lemma parse_entry_size:
  assumes "fst (parse_entry e k entry) = Some (name, info)"
  shows "\<exists>v. ParseInt (Fields entry ! 4) = Some v \<and> sint (FileInfo.Size info) = v
           \<and> - (2 ^ 63) \<le> v \<and> v < 2 ^ 63"
proof -
  from parse_entry_Some [OF assms] obtain v where
    v: "ParseInt (Fields entry ! 4) = Some v" and s: "FileInfo.Size info = word_of_int v"
    by auto
  from ParseInt_range [OF v] s v show ?thesis by (simp add: sint_int64)
qed

text \<open>The fields are parted by the white space of Unicode, not only by that of ASCII: the
  no-break space U+00A0 and the ideographic space U+3000 part two fields, the zero width
  space U+200B does not, and the byte A0 alone, which is no rune, does not either.\<close>

lemma Fields_white_space:
  "Fields ex_line_nbsp
     = [''-rw-r--r--'', ''0'', ''root'', ''root'', ''5'', ''Jan'', ''1'', ''2020'', ''f'']"
  "Fields (''a'' @ [CHR 0xE3, CHR 0x80, CHR 0x80] @ ''b'') = [''a'', ''b'']"
  "Fields (''a'' @ [CHR 0xE2, CHR 0x80, CHR 0x8B] @ ''b'')
     = [''a'' @ [CHR 0xE2, CHR 0x80, CHR 0x8B] @ ''b'']"
  "Fields (''a'' @ [CHR 0xA0] @ ''b'') = [''a'' @ [CHR 0xA0] @ ''b'']"
  "Fields ([CHR 0x09] @ ''a  b'' @ [CHR 0x0D, CHR 0x0A]) = [''a'', ''b'']"
  by code_simp+

text \<open>
  Claim C5. A line of the listing with fewer than 9 fields, or whose fifth field
  \<open>ParseInt\<close> rejects, or whose date text parses under neither layout, leaves the inventory
  as it was. Every other line stores an entry under the name made of the fields from the
  ninth on, joined by single spaces, with the size that the fifth field denotes. Every
  entry of the inventory that \<open>GetFiles\<close> builds comes from such a line.
\<close>

theorem scan_line_parsing:
  "(length (Fields entry) < 9 \<or> ParseInt (Fields entry ! 4) = None
      \<or> parse_dateStr (dateStr_of e k (Fields entry)) = None
    \<longrightarrow> fst (scan_line e entry (m, k)) = m) \<and>
   (9 \<le> length (Fields entry) \<and> ParseInt (Fields entry ! 4) = Some v
      \<and> parse_dateStr (dateStr_of e k (Fields entry)) = Some date
    \<longrightarrow> (\<exists>info. fst (scan_line e entry (m, k))
                   = AList.update (Join (drop 8 (Fields entry)) '' '') info m
                 \<and> sint (FileInfo.Size info) = v)) \<and>
   (parse_dateStr s = None
    \<longleftrightarrow> Parse ''Jan 2 2006 15:04'' s = None \<and> Parse ''Jan 2 2006'' s = None) \<and>
   (listing_of e = ListRuns lines waited \<and> files rs = None
      \<and> fst (GetFiles e rs w) = Some allFiles \<and> (name, info) \<in> set allFiles
    \<longrightarrow> (\<exists>entry\<in>set lines. \<exists>k v.
           9 \<le> length (Fields entry) \<and> ParseInt (Fields entry ! 4) = Some v
           \<and> parse_dateStr (dateStr_of e k (Fields entry)) \<noteq> None
           \<and> name = Join (drop 8 (Fields entry)) '' ''
           \<and> sint (FileInfo.Size info) = v))"
proof -
  have skip: "fst (scan_line e entry (m, k)) = m"
    if "length (Fields entry) < 9 \<or> ParseInt (Fields entry ! 4) = None
        \<or> parse_dateStr (dateStr_of e k (Fields entry)) = None"
  proof -
    have "fst (parse_entry e k entry) = None"
    proof (cases "length (Fields entry) < 9")
      case True
      then show ?thesis by (simp add: parse_entry_short)
    next
      case long: False
      show ?thesis
      proof (cases "ParseInt (Fields entry ! 4)")
        case None
        with long show ?thesis by (simp add: parse_entry_no_size)
      next
        case (Some v')
        with that long have "parse_dateStr (dateStr_of e k (Fields entry)) = None" by simp
        from parse_entry_no_date [OF long Some this] show ?thesis .
      qed
    qed
    then show ?thesis by (simp add: scan_line_eq)
  qed
  have store: "\<exists>info. fst (scan_line e entry (m, k))
                   = AList.update (Join (drop 8 (Fields entry)) '' '') info m
                 \<and> sint (FileInfo.Size info) = v"
    if "9 \<le> length (Fields entry)" "ParseInt (Fields entry ! 4) = Some v"
      "parse_dateStr (dateStr_of e k (Fields entry)) = Some date"
  proof -
    have long: "\<not> length (Fields entry) < 9" using that(1) by simp
    let ?info = "\<lparr>FileInfo.Size = word_of_int v,
              Date = (if After date (now_at e (if Contains (Fields entry ! 7) '':'' then Suc k else k))
                      then AddDate_years date (- 1) else date)\<rparr>"
    have "fst (scan_line e entry (m, k)) = AList.update (Join (drop 8 (Fields entry)) '' '') ?info m"
      using parse_entry_stored [OF long that(2,3)] by (simp add: scan_line_eq)
    moreover have "sint (FileInfo.Size ?info) = v"
      using ParseInt_range [OF that(2)] by (simp add: sint_int64)
    ultimately show ?thesis by blast
  qed
  have both: "parse_dateStr s = None
    \<longleftrightarrow> Parse ''Jan 2 2006 15:04'' s = None \<and> Parse ''Jan 2 2006'' s = None"
    by (simp add: parse_dateStr_def split: option.splits)
  have origin: "\<exists>entry\<in>set lines. \<exists>k v.
           9 \<le> length (Fields entry) \<and> ParseInt (Fields entry ! 4) = Some v
           \<and> parse_dateStr (dateStr_of e k (Fields entry)) \<noteq> None
           \<and> name = Join (drop 8 (Fields entry)) '' ''
           \<and> sint (FileInfo.Size info) = v"
    if "listing_of e = ListRuns lines waited" "files rs = None"
      "fst (GetFiles e rs w) = Some allFiles" "(name, info) \<in> set allFiles"
  proof -
    from GetFiles_origin [OF that] obtain entry k' where
      en: "entry \<in> set lines" and p: "fst (parse_entry e k' entry) = Some (name, info)"
      by blast
    from parse_entry_Some [OF p] parse_entry_size [OF p] en show ?thesis
      by (intro bexI [of _ entry] exI [of _ k']) auto
  qed
  from skip store both origin show ?thesis by blast
qed

lemma ex_GetFiles:
  "fst (GetFiles ex_listing (NewGoSnapper ''archive'' (ex_opts 0)) ex_world)
     = Some [(''f g'', \<lparr>FileInfo.Size = 5, Date = ex_date 2020 1 1 0 0\<rparr>),
             (''a/b'', \<lparr>FileInfo.Size = 100, Date = ex_date 2023 7 1 10 30\<rparr>)]"
  by code_simp

theorem scan_line_parsing_witness:
  "length (Fields ex_line_short) < 9 \<and>
   fst (scan_line ex_idle ex_line_short ([], 0)) = [] \<and>
   9 \<le> length (Fields ex_line_year) \<and>
   ParseInt (Fields ex_line_year ! 4) = Some 5 \<and>
   parse_dateStr (dateStr_of ex_idle 0 (Fields ex_line_year)) = Some (ex_date 2020 1 1 0 0) \<and>
   Join (drop 8 (Fields ex_line_year)) '' '' = ''f g'' \<and>
   (\<exists>info. fst (scan_line ex_idle ex_line_year ([], 0)) = AList.update ''f g'' info []
           \<and> sint (FileInfo.Size info) = 5) \<and>
   length (Fields ex_line_nbsp) = 9 \<and>
   ParseInt (Fields ex_line_nbsp ! 4) = Some 5 \<and>
   parse_dateStr (dateStr_of ex_idle 0 (Fields ex_line_nbsp)) = Some (ex_date 2020 1 1 0 0) \<and>
   (\<exists>info. fst (scan_line ex_idle ex_line_nbsp ([], 0)) = AList.update ''f'' info []
           \<and> sint (FileInfo.Size info) = 5) \<and>
   fst (GetFiles ex_listing (NewGoSnapper ''archive'' (ex_opts 0)) ex_world)
     = Some [(''f g'', \<lparr>FileInfo.Size = 5, Date = ex_date 2020 1 1 0 0\<rparr>),
             (''a/b'', \<lparr>FileInfo.Size = 100, Date = ex_date 2023 7 1 10 30\<rparr>)] \<and>
   (\<exists>entry\<in>set [ex_line_short, ex_line_year, ex_line_time]. \<exists>k v.
       9 \<le> length (Fields entry) \<and> ParseInt (Fields entry ! 4) = Some v
       \<and> parse_dateStr (dateStr_of ex_listing k (Fields entry)) \<noteq> None
       \<and> ''a/b'' = Join (drop 8 (Fields entry)) '' ''
       \<and> sint (FileInfo.Size \<lparr>FileInfo.Size = 100, Date = ex_date 2023 7 1 10 30\<rparr>) = v)"
proof -
  have h1: "length (Fields ex_line_short) < 9" by code_simp
  have h2: "9 \<le> length (Fields ex_line_year)" by code_simp
  have h3: "ParseInt (Fields ex_line_year ! 4) = Some 5" by code_simp
  have h4: "parse_dateStr (dateStr_of ex_idle 0 (Fields ex_line_year)) = Some (ex_date 2020 1 1 0 0)"
    by code_simp
  have h5: "Join (drop 8 (Fields ex_line_year)) '' '' = ''f g''" by code_simp
  have c1: "fst (scan_line ex_idle ex_line_short ([], 0)) = []"
    using scan_line_parsing [where entry = ex_line_short and e = ex_idle and k = 0 and m = "[]"] h1
    by blast
  have c2: "\<exists>info. fst (scan_line ex_idle ex_line_year ([], 0))
                   = AList.update (Join (drop 8 (Fields ex_line_year)) '' '') info []
                 \<and> sint (FileInfo.Size info) = 5"
    using scan_line_parsing [where entry = ex_line_year and e = ex_idle and k = 0 and m = "[]"
        and v = 5 and date = "ex_date 2020 1 1 0 0"] h2 h3 h4
    by blast
  have n1: "length (Fields ex_line_nbsp) = 9" by code_simp
  have n2: "ParseInt (Fields ex_line_nbsp ! 4) = Some 5" by code_simp
  have n3: "parse_dateStr (dateStr_of ex_idle 0 (Fields ex_line_nbsp)) = Some (ex_date 2020 1 1 0 0)"
    by code_simp
  have n4: "Join (drop 8 (Fields ex_line_nbsp)) '' '' = ''f''" by code_simp
  have c4: "\<exists>info. fst (scan_line ex_idle ex_line_nbsp ([], 0))
                   = AList.update (Join (drop 8 (Fields ex_line_nbsp)) '' '') info []
                 \<and> sint (FileInfo.Size info) = 5"
    using scan_line_parsing [where entry = ex_line_nbsp and e = ex_idle and k = 0 and m = "[]"
        and v = 5 and date = "ex_date 2020 1 1 0 0"] n1 n2 n3
    by simp
  have l: "listing_of ex_listing = ListRuns [ex_line_short, ex_line_year, ex_line_time] None"
    by (simp add: ex_listing_def ex_env_def)
  have f: "files (NewGoSnapper ''archive'' (ex_opts 0)) = None"
    by (simp add: NewGoSnapper_def Let_def)
  let ?info = "\<lparr>FileInfo.Size = 100, Date = ex_date 2023 7 1 10 30\<rparr>"
  let ?all = "[(''f g'', \<lparr>FileInfo.Size = 5, Date = ex_date 2020 1 1 0 0\<rparr>), (''a/b'', ?info)]"
  have i: "(''a/b'', ?info) \<in> set ?all" by simp
  note origin = scan_line_parsing [where e = ex_listing
        and lines = "[ex_line_short, ex_line_year, ex_line_time]" and waited = None
        and rs = "NewGoSnapper ''archive'' (ex_opts 0)" and w = ex_world
        and allFiles = ?all and name = "''a/b''" and info = ?info,
      THEN conjunct2, THEN conjunct2, THEN conjunct2, rule_format]
  have c3: "\<exists>entry\<in>set [ex_line_short, ex_line_year, ex_line_time]. \<exists>k v.
       9 \<le> length (Fields entry) \<and> ParseInt (Fields entry ! 4) = Some v
       \<and> parse_dateStr (dateStr_of ex_listing k (Fields entry)) \<noteq> None
       \<and> ''a/b'' = Join (drop 8 (Fields entry)) '' ''
       \<and> sint (FileInfo.Size ?info) = v"
    by (rule origin) (use l f ex_GetFiles i in blast)
  from h1 h2 h3 h4 h5 c1 c2 c3 c4 n1 n2 n3 n4 ex_GetFiles show ?thesis
    by (simp only: h5 n4 simp_thms)
qed

lemma not_After_self: "\<not> After t t"
  by (simp add: After_def time_key_def)

text \<open>
  Claim C6. For every line that yields an entry: when the parsed date is after the reading
  of the clock (strictly: no time is after itself), the stored date is the parsed date one
  year back, \<open>AddDate(-1, 0, 0)\<close>, applied once: its year is the parsed year less one, and
  the other fields are the parsed ones unless the date is a 29 February, which Go
  normalises to 1 March. Otherwise the stored date is the parsed date. The rule is the
  same for both forms of the date.
\<close>

theorem parse_entry_future_date:
  assumes "fst (parse_entry e k entry) = Some (name, info)"
  shows "\<exists>date now.
     parse_dateStr (dateStr_of e k (Fields entry)) = Some date \<and>
     now = now_at e (if Contains (Fields entry ! 7) '':'' then Suc k else k) \<and>
     (After date now \<longrightarrow>
        Date info = AddDate_years date (- 1) \<and>
        t_year (Date info) = t_year date - 1 \<and>
        (\<not> (t_month date = 2 \<and> t_day date = 29) \<longrightarrow>
           Date info = date\<lparr>t_year := t_year date - 1\<rparr>)) \<and>
     (\<not> After date now \<longrightarrow> Date info = date) \<and>
     \<not> After now now"
proof -
  from parse_entry_Some [OF assms] obtain v date where
    d: "parse_dateStr (dateStr_of e k (Fields entry)) = Some date"
    and i: "info = \<lparr>FileInfo.Size = word_of_int v,
              Date = (if After date (now_at e (if Contains (Fields entry ! 7) '':'' then Suc k else k))
                      then AddDate_years date (- 1) else date)\<rparr>"
    by blast
  have y: "t_year (AddDate_years date (- 1)) = t_year date - 1"
    by (simp add: AddDate_years_def)
  have u: "AddDate_years date (- 1) = date\<lparr>t_year := t_year date - 1\<rparr>"
    if "\<not> (t_month date = 2 \<and> t_day date = 29)"
    using that by (auto simp: AddDate_years_def)
  let ?now = "now_at e (if Contains (Fields entry ! 7) '':'' then Suc k else k)"
  have di: "Date info = (if After date ?now then AddDate_years date (- 1) else date)"
    by (simp add: i)
  have "parse_dateStr (dateStr_of e k (Fields entry)) = Some date \<and>
     ?now = ?now \<and>
     (After date ?now \<longrightarrow>
        Date info = AddDate_years date (- 1) \<and>
        t_year (Date info) = t_year date - 1 \<and>
        (\<not> (t_month date = 2 \<and> t_day date = 29) \<longrightarrow>
           Date info = date\<lparr>t_year := t_year date - 1\<rparr>)) \<and>
     (\<not> After date ?now \<longrightarrow> Date info = date) \<and>
     \<not> After ?now ?now"
    using d di y u not_After_self by simp
  then show ?thesis by blast
qed

theorem parse_entry_future_date_witness:
  "fst (parse_entry ex_idle 0 ex_line_time)
     = Some (''a/b'', \<lparr>FileInfo.Size = 100, Date = ex_date 2023 7 1 10 30\<rparr>) \<and>
   parse_dateStr (dateStr_of ex_idle 0 (Fields ex_line_time)) = Some (ex_date 2024 7 1 10 30) \<and>
   After (ex_date 2024 7 1 10 30) ex_now \<and>
   AddDate_years (ex_date 2024 7 1 10 30) (- 1) = ex_date 2023 7 1 10 30 \<and>
   (\<exists>date now.
      parse_dateStr (dateStr_of ex_idle 0 (Fields ex_line_time)) = Some date \<and>
      now = ex_now \<and> After date now \<and>
      Date \<lparr>FileInfo.Size = 100, Date = ex_date 2023 7 1 10 30\<rparr> = AddDate_years date (- 1)) \<and>
   fst (parse_entry ex_idle 0 ex_line_year)
     = Some (''f g'', \<lparr>FileInfo.Size = 5, Date = ex_date 2020 1 1 0 0\<rparr>) \<and>
   \<not> After (ex_date 2020 1 1 0 0) ex_now \<and>
   (\<exists>date now.
      parse_dateStr (dateStr_of ex_idle 0 (Fields ex_line_year)) = Some date \<and>
      now = ex_now \<and> \<not> After date now \<and>
      Date \<lparr>FileInfo.Size = 5, Date = ex_date 2020 1 1 0 0\<rparr> = date)"
proof -
  let ?info = "\<lparr>FileInfo.Size = 100, Date = ex_date 2023 7 1 10 30\<rparr>"
  let ?old = "\<lparr>FileInfo.Size = 5, Date = ex_date 2020 1 1 0 0\<rparr>"
  have h: "fst (parse_entry ex_idle 0 ex_line_time) = Some (''a/b'', ?info)" by code_simp
  have d: "parse_dateStr (dateStr_of ex_idle 0 (Fields ex_line_time)) = Some (ex_date 2024 7 1 10 30)"
    by code_simp
  have a: "After (ex_date 2024 7 1 10 30) ex_now" by code_simp
  have s: "AddDate_years (ex_date 2024 7 1 10 30) (- 1) = ex_date 2023 7 1 10 30" by code_simp
  have n: "now_at ex_idle j = ex_now" for j by (simp add: ex_idle_def ex_env_def)
  from parse_entry_future_date [OF h] obtain date now where
    c: "parse_dateStr (dateStr_of ex_idle 0 (Fields ex_line_time)) = Some date"
       "now = now_at ex_idle (if Contains (Fields ex_line_time ! 7) '':'' then Suc 0 else 0)"
       "After date now \<longrightarrow> Date ?info = AddDate_years date (- 1)"
    by blast
  from c(1) d have "date = ex_date 2024 7 1 10 30" by simp
  with c a n have r1: "\<exists>date now.
      parse_dateStr (dateStr_of ex_idle 0 (Fields ex_line_time)) = Some date \<and>
      now = ex_now \<and> After date now \<and> Date ?info = AddDate_years date (- 1)"
    by auto
  have h': "fst (parse_entry ex_idle 0 ex_line_year) = Some (''f g'', ?old)" by code_simp
  have d': "parse_dateStr (dateStr_of ex_idle 0 (Fields ex_line_year)) = Some (ex_date 2020 1 1 0 0)"
    by code_simp
  have a': "\<not> After (ex_date 2020 1 1 0 0) ex_now" by code_simp
  from parse_entry_future_date [OF h'] obtain date' now' where
    c': "parse_dateStr (dateStr_of ex_idle 0 (Fields ex_line_year)) = Some date'"
       "now' = now_at ex_idle (if Contains (Fields ex_line_year ! 7) '':'' then Suc 0 else 0)"
       "\<not> After date' now' \<longrightarrow> Date ?old = date'"
    by blast
  from c'(1) d' have "date' = ex_date 2020 1 1 0 0" by simp
  with c' a' n have r2: "\<exists>date now.
      parse_dateStr (dateStr_of ex_idle 0 (Fields ex_line_year)) = Some date \<and>
      now = ex_now \<and> \<not> After date now \<and> Date ?old = date"
    by auto
  from h d a s r1 h' a' r2 show ?thesis by blast
qed

text \<open>
  Claim C9 says that every stored size is at least 0. It fails for a line whose fifth
  field is a negative number, which \<open>ParseInt\<close> accepts: the stored size is negative.
\<close>

theorem parse_entry_negative_size:
  "fst (parse_entry ex_idle 0 ex_line_neg)
     = Some (''f'', \<lparr>FileInfo.Size = - 5, Date = ex_date 2020 1 1 0 0\<rparr>) \<and>
   sint (FileInfo.Size \<lparr>FileInfo.Size = - 5, Date = ex_date 2020 1 1 0 0\<rparr>) < 0"
proof -
  have "fst (parse_entry ex_idle 0 ex_line_neg)
     = Some (''f'', \<lparr>FileInfo.Size = - 5, Date = ex_date 2020 1 1 0 0\<rparr>)"
    by code_simp
  then show ?thesis by simp
qed

text \<open>
  Claim C9, amended. Every entry that the parser stores has the size that \<open>ParseInt\<close> reads
  from the fifth field, a signed 64-bit integer from \<open>-2^63\<close> to \<open>2^63 - 1\<close>; it is at least
  0 when the field does not start with a minus sign.
\<close>

theorem parse_entry_size_int64:
  assumes "fst (parse_entry e k entry) = Some (name, info)"
  shows "\<exists>v. ParseInt (Fields entry ! 4) = Some v \<and> sint (FileInfo.Size info) = v
           \<and> - (2 ^ 63) \<le> v \<and> v < 2 ^ 63
           \<and> (hd (Fields entry ! 4) \<noteq> CHR ''-'' \<longrightarrow> 0 \<le> sint (FileInfo.Size info))"
proof -
  from parse_entry_size [OF assms] obtain v where
    v: "ParseInt (Fields entry ! 4) = Some v" "sint (FileInfo.Size info) = v"
      "- (2 ^ 63) \<le> v" "v < 2 ^ 63"
    by blast
  have "0 \<le> sint (FileInfo.Size info)" if "hd (Fields entry ! 4) \<noteq> CHR ''-''"
    using ParseInt_nonneg [OF v(1) that] v(2) by simp
  with v show ?thesis by blast
qed

theorem parse_entry_size_int64_witness:
  "fst (parse_entry ex_idle 0 ex_line_year)
     = Some (''f g'', \<lparr>FileInfo.Size = 5, Date = ex_date 2020 1 1 0 0\<rparr>) \<and>
   hd (Fields ex_line_year ! 4) \<noteq> CHR ''-'' \<and>
   (\<exists>v. ParseInt (Fields ex_line_year ! 4) = Some v \<and> v = 5 \<and> - (2 ^ 63) \<le> v \<and> v < 2 ^ 63)"
proof -
  let ?info = "\<lparr>FileInfo.Size = 5, Date = ex_date 2020 1 1 0 0\<rparr>"
  have h: "fst (parse_entry ex_idle 0 ex_line_year) = Some (''f g'', ?info)" by code_simp
  have g: "hd (Fields ex_line_year ! 4) \<noteq> CHR ''-''" by code_simp
  from parse_entry_size_int64 [OF h] obtain v where
    "ParseInt (Fields ex_line_year ! 4) = Some v" "sint (FileInfo.Size ?info) = v"
    "- (2 ^ 63) \<le> v" "v < 2 ^ 63"
    by blast
  then have "\<exists>v. ParseInt (Fields ex_line_year ! 4) = Some v \<and> v = 5 \<and> - (2 ^ 63) \<le> v \<and> v < 2 ^ 63"
    by auto
  with h g show ?thesis by blast
qed

section \<open>The empty directories\<close>

lemma Split_nonempty: "Split s c \<noteq> []"
  by (induction s) (auto split: list.splits)

lemma Join_Cons_Cons: "Join ((x # w) # rest) sep = x # Join (w # rest) sep"
  by (cases rest) simp_all

lemma Join_Nil_Cons: "l \<noteq> [] \<Longrightarrow> Join ([] # l) sep = sep @ Join l sep"
  by (cases l) simp_all

text \<open>The joined proper prefixes of the elements of a path are the texts before its
  separators.\<close>

lemma Split_breaks:
  "(\<lambda>i. Join (take (Suc i) (Split s c)) [c]) ` {0..<length (Split s c) - 1}
     = {p. \<exists>r. s = p @ c # r}"
proof (induction s)
  case Nil
  then show ?case by simp
next
  case (Cons x xs)
  let ?S = "Split xs c"
  have ne: "?S \<noteq> []" by (rule Split_nonempty)
  then have pos: "0 < length ?S" by simp
  show ?case
  proof (cases "x = c")
    case True
    have sp: "Split (x # xs) c = [] # ?S" using True by simp
    have step: "Join ([] # take (Suc j) ?S) [c] = c # Join (take (Suc j) ?S) [c]" for j
    proof -
      have "take (Suc j) ?S \<noteq> []" using ne by (cases ?S) simp_all
      from Join_Nil_Cons [OF this, of "[c]"] show ?thesis by simp
    qed
    have "(\<lambda>i. Join (take (Suc i) ([] # ?S)) [c]) ` {0..<length ?S}
          = insert [] ((\<lambda>j. c # Join (take (Suc j) ?S) [c]) ` {0..<length ?S - 1})"
    proof (rule set_eqI, rule iffI)
      fix y
      assume "y \<in> (\<lambda>i. Join (take (Suc i) ([] # ?S)) [c]) ` {0..<length ?S}"
      then obtain i where i: "i < length ?S" "y = Join ([] # take i ?S) [c]" by auto
      show "y \<in> insert [] ((\<lambda>j. c # Join (take (Suc j) ?S) [c]) ` {0..<length ?S - 1})"
      proof (cases i)
        case 0
        with i show ?thesis by simp
      next
        case (Suc j)
        with i have "j < length ?S - 1" "y = c # Join (take (Suc j) ?S) [c]"
          by (simp_all add: step)
        then show ?thesis by auto
      qed
    next
      fix y
      assume "y \<in> insert [] ((\<lambda>j. c # Join (take (Suc j) ?S) [c]) ` {0..<length ?S - 1})"
      then consider "y = []" | j where "j < length ?S - 1" "y = c # Join (take (Suc j) ?S) [c]"
        by auto
      then show "y \<in> (\<lambda>i. Join (take (Suc i) ([] # ?S)) [c]) ` {0..<length ?S}"
      proof cases
        case 1
        have "y = Join (take (Suc 0) ([] # ?S)) [c]" using 1 by simp
        with pos show ?thesis by (intro image_eqI [of _ _ 0]) simp_all
      next
        case 2
        then have "y = Join (take (Suc (Suc j)) ([] # ?S)) [c]" "Suc j < length ?S"
          by (simp_all add: step)
        then show ?thesis by (intro image_eqI [of _ _ "Suc j"]) simp_all
      qed
    qed
    also have "\<dots> = insert [] ((\<lambda>q. c # q) ` {p. \<exists>r. xs = p @ c # r})"
    proof -
      have "(\<lambda>j. c # Join (take (Suc j) ?S) [c]) ` {0..<length ?S - 1}
            = (\<lambda>q. c # q) ` ((\<lambda>j. Join (take (Suc j) ?S) [c]) ` {0..<length ?S - 1})"
        by (simp only: image_image)
      then show ?thesis by (simp only: Cons.IH)
    qed
    also have "\<dots> = {p. \<exists>r. x # xs = p @ c # r}"
      using True by (auto simp: Cons_eq_append_conv)
    finally show ?thesis unfolding sp by simp
  next
    case False
    obtain w ws where S: "?S = w # ws" using ne by (cases ?S) auto
    have sp: "Split (x # xs) c = (x # w) # ws" using False S by simp
    have "(\<lambda>i. Join (take (Suc i) ((x # w) # ws)) [c]) ` {0..<length ws}
          = (\<lambda>i. x # Join (take (Suc i) (w # ws)) [c]) ` {0..<length ws}"
      by (simp add: Join_Cons_Cons)
    also have "\<dots> = (\<lambda>q. x # q) ` {p. \<exists>r. xs = p @ c # r}"
    proof -
      have "(\<lambda>i. x # Join (take (Suc i) (w # ws)) [c]) ` {0..<length ws}
            = (\<lambda>q. x # q) ` ((\<lambda>j. Join (take (Suc j) ?S) [c]) ` {0..<length ?S - 1})"
        by (simp add: image_image S)
      then show ?thesis by (simp only: Cons.IH)
    qed
    also have "\<dots> = {p. \<exists>r. x # xs = p @ c # r}"
      using False by (auto simp: Cons_eq_append_conv)
    finally show ?thesis unfolding sp by simp
  qed
qed

lemma filter_below_last: "filter (\<lambda>i. int i < int n - 1) [0..<n] = [0..<n - 1]"
proof (cases n)
  case 0
  then show ?thesis by simp
next
  case (Suc m)
  have "filter (\<lambda>i. int i < int m) [0..<m] = [0..<m]"
    by (simp add: filter_id_conv)
  then show ?thesis using Suc by simp
qed

lemma set_parentDirs:
  "set (parentDirs dir)
     = (\<lambda>p. p @ ''/'') ` {p. \<exists>r. TrimSuffix dir ''/'' = p @ CHR ''/'' # r}"
proof -
  let ?cs = "Split (TrimSuffix dir ''/'') (CHR ''/'')"
  have "set (parentDirs dir) = (\<lambda>i. Join (take (Suc i) ?cs) ''/'' @ ''/'') ` {0..<length ?cs - 1}"
    by (simp add: parentDirs_def Let_def filter_below_last)
  also have "\<dots> = (\<lambda>p. p @ ''/'') ` ((\<lambda>i. Join (take (Suc i) ?cs) ''/'') ` {0..<length ?cs - 1})"
    by (simp add: image_image)
  finally show ?thesis
    using Split_breaks [of "TrimSuffix dir ''/''" "CHR ''/''"] by simp
qed

lemma parentDirs_ancestors:
  assumes "HasSuffix dir ''/''"
  shows "p \<in> set (parentDirs dir) \<longleftrightarrow> proper_ancestor p dir"
proof -
  let ?s = "TrimSuffix dir ''/''"
  have dir: "dir = ?s @ ''/''"
  proof -
    have "drop (length dir - length ''/'') dir = ''/''" and "HasSuffix dir ''/''"
      using assms by (simp_all add: HasSuffix_def)
    then show ?thesis
      using append_take_drop_id [of "length dir - length ''/''" dir]
      by (simp add: TrimSuffix_def)
  qed
  show ?thesis
  proof
    assume "p \<in> set (parentDirs dir)"
    then obtain q r where q: "p = q @ ''/''" "?s = q @ CHR ''/'' # r"
      by (auto simp: set_parentDirs)
    have d: "dir = q @ CHR ''/'' # r @ ''/''" using dir q(2) by simp
    have "length dir = length q + length r + 2" by (subst d) simp
    moreover have "length p = length q + 1" by (simp add: q(1))
    ultimately have "p \<noteq> dir" by auto
    moreover have "HasSuffix p ''/''" by (simp add: q(1) HasSuffix_def)
    moreover have "take (length p) dir = p"
      by (subst d) (simp add: q(1))
    ultimately show "proper_ancestor p dir" by (simp add: proper_ancestor_def)
  next
    assume a: "proper_ancestor p dir"
    then obtain q where q: "p = q @ ''/''"
      by (auto simp: proper_ancestor_def HasSuffix_iff)
    from a have tk: "take (length p) dir = p" and neq: "p \<noteq> dir"
      by (simp_all add: proper_ancestor_def)
    define t where "t = drop (length p) dir"
    have t: "dir = p @ t"
      using append_take_drop_id [of "length p" dir] tk by (simp add: t_def)
    have tne: "t \<noteq> []" using t neq by auto
    have "?s @ ''/'' = (q @ ''/'' @ butlast t) @ [last t]"
      using dir t q tne by simp
    from this [unfolded append1_eq_conv] have "?s = q @ ''/'' @ butlast t"
      by (rule conjunct1)
    then show "p \<in> set (parentDirs dir)"
      by (auto simp: set_parentDirs q)
  qed
qed

text \<open>Where \<open>filepath.Dir\<close> leaves the parent of every file as it is written,
  \<open>EmptyDirs\<close> returns the directories that the specification describes.\<close>

lemma EmptyDirs_spec:
  assumes "\<forall>f\<in>set fileNames. Dir f @ ''/'' = immediate_parent f"
    and "\<forall>d\<in>set dirs. HasSuffix d ''/''"
  shows "set (EmptyDirs fileNames dirs) = set (spec_EmptyDirs fileNames dirs)"
proof -
  have "(\<Union>d\<in>set dirs. set (parentDirs d)) = {p. \<exists>d\<in>set dirs. proper_ancestor p d}"
    using assms(2) parentDirs_ancestors by auto
  moreover have "(\<lambda>f. Dir f @ ''/'') ` set fileNames = immediate_parent ` set fileNames"
    using assms(1) by (intro image_cong) auto
  ultimately show ?thesis
    by (auto simp: EmptyDirs_set spec_EmptyDirs_def list_ex_iff)
qed

text \<open>
  Claim C7. \<open>EmptyDirs\<close> is to return the directories that are neither the immediate
  parent of a file nor a proper ancestor of a directory. For the directory "./a/" and the
  file "./a/c.txt" it returns "./a/", the parent of the file: \<open>filepath.Dir\<close> cleans the
  path of the file to "a", so that "a/" is deleted from the candidates and "./a/" stays.
  The two examples of the claim hold.
\<close>

theorem EmptyDirs_keeps_parent_of_file:
  "EmptyDirs [''./a/c.txt''] [''./a/''] = [''./a/''] \<and>
   spec_EmptyDirs [''./a/c.txt''] [''./a/''] = [] \<and>
   immediate_parent ''./a/c.txt'' = ''./a/'' \<and>
   Dir ''./a/c.txt'' @ ''/'' = ''a/'' \<and>
   map fst (FilesToExtract_from [(''./a/'', ex_info 0), (''./a/c.txt'', ex_info 5)])
     = [''./a/c.txt'', ''./a/''] \<and>
   EmptyDirs [''a/b/c.txt''] [''a/'', ''a/b/''] = [] \<and>
   spec_EmptyDirs [''a/b/c.txt''] [''a/'', ''a/b/''] = [] \<and>
   EmptyDirs [] [''x/'', ''y/''] = [''x/'', ''y/''] \<and>
   spec_EmptyDirs [] [''x/'', ''y/''] = [''x/'', ''y/'']"
  by code_simp

section \<open>The partition of the targets\<close>

lemma dir_names_suffix: "d \<in> set (dir_names allFiles) \<Longrightarrow> HasSuffix d ''/''"
  by (simp add: dir_names_def)

text \<open>Where the parent of every file is found as it is written, the directories that
  \<open>EmptyDirs\<close> returns for an inventory are the empty directories of the specification.\<close>

lemma EmptyDirs_as_written:
  assumes "parents_as_written allFiles"
  shows "set (EmptyDirs (file_names allFiles) (dir_names allFiles))
           = set (spec_EmptyDirs (file_names allFiles) (dir_names allFiles))"
proof -
  let ?fs = "file_names allFiles"
  let ?ds = "dir_names allFiles"
  have anc: "(\<Union>d\<in>set ?ds. set (parentDirs d)) = {p. \<exists>d\<in>set ?ds. proper_ancestor p d}"
    using dir_names_suffix parentDirs_ancestors by auto
  have par: "d \<in> (\<lambda>f. Dir f @ ''/'') ` set ?fs \<longleftrightarrow> d \<in> immediate_parent ` set ?fs"
    if "d \<in> set ?ds" for d
  proof
    assume "d \<in> (\<lambda>f. Dir f @ ''/'') ` set ?fs"
    then obtain f where f: "f \<in> set ?fs" "d = Dir f @ ''/''" by blast
    with assms that have "Dir f @ ''/'' = immediate_parent f"
      unfolding parents_as_written_def by blast
    with f show "d \<in> immediate_parent ` set ?fs" by simp
  next
    assume "d \<in> immediate_parent ` set ?fs"
    then obtain f where f: "f \<in> set ?fs" "d = immediate_parent f" by blast
    with assms that have "Dir f @ ''/'' = immediate_parent f"
      unfolding parents_as_written_def by blast
    with f show "d \<in> (\<lambda>f. Dir f @ ''/'') ` set ?fs" by force
  qed
  have "set (EmptyDirs ?fs ?ds)
          = {d \<in> set ?ds. d \<notin> (\<lambda>f. Dir f @ ''/'') ` set ?fs \<and> \<not> (\<exists>d'\<in>set ?ds. proper_ancestor d d')}"
    by (auto simp: EmptyDirs_set anc)
  also have "\<dots> = {d \<in> set ?ds. d \<notin> immediate_parent ` set ?fs \<and> \<not> (\<exists>d'\<in>set ?ds. proper_ancestor d d')}"
    using par by blast
  also have "\<dots> = set (spec_EmptyDirs ?fs ?ds)"
    by (auto simp: spec_EmptyDirs_def list_ex_iff)
  finally show ?thesis .
qed

text \<open>
  Claim C1 says that for every inventory and every worker count of at least 1 the groups
  of \<open>FileGroups\<close> hold every extraction target, the entries that are not directories and
  the empty directories, exactly once. It fails in two ways. With \<open>2^62\<close> workers, a count
  that the option \<open>-j\<close> can give, \<open>FileGroups\<close> returns no groups: \<open>make\<close> panics. And for the
  listing of the directory "./a/" and the file "./a/c.txt", with two workers, the groups
  hold "./a/", which is not empty and is no target: \<open>EmptyDirs\<close> keeps it.
\<close>

theorem FileGroups_not_partition:
  "1 \<le> tpsize (NewGoSnapper ''archive'' (ex_opts (2 ^ 62))) \<and>
   fst (FileGroups ex_idle (NewGoSnapper ''archive'' (ex_opts (2 ^ 62))) ex_world)
     = Inl MakeSliceLenOutOfRange \<and>
   fst (GetFiles ex_idle (ex_rs ex_dot None) ex_world) = Some ex_dot \<and>
   1 \<le> tpsize (ex_rs ex_dot None) \<and>
   24 * tpsize (ex_rs ex_dot None) \<le> maxAlloc \<and>
   fst (FileGroups ex_idle (ex_rs ex_dot None) ex_world) = Inr [[''./a/c.txt''], [''./a/'']] \<and>
   targets ex_dot = {''./a/c.txt''} \<and>
   ''./a/'' \<notin> targets ex_dot"
proof -
  let ?big = "NewGoSnapper ''archive'' (ex_opts (2 ^ 62))"
  have k: "tpsize ?big = 2 ^ 62"
    by (simp add: NewGoSnapper_def ex_opts_def)
  have "new_groups (tpsize ?big) = Inl MakeSliceLenOutOfRange"
    unfolding k by (rule new_groups_large) (simp add: maxAlloc_def)
  then have p: "fst (FileGroups ex_idle ?big ex_world) = Inl MakeSliceLenOutOfRange"
    by (simp add: FileGroups_groups_panics)
  have g: "fst (GetFiles ex_idle (ex_rs ex_dot None) ex_world) = Some ex_dot"
    by (simp add: GetFiles_def ex_rs_def)
  have k2: "tpsize (ex_rs ex_dot None) = 2"
    by (simp add: ex_rs_def NewGoSnapper_def ex_opts_def)
  have r: "fst (FileGroups ex_idle (ex_rs ex_dot None) ex_world) = Inr [[''./a/c.txt''], [''./a/'']]"
    by code_simp
  have f: "file_names ex_dot = [''./a/c.txt'']" by code_simp
  have d: "spec_EmptyDirs (file_names ex_dot) (dir_names ex_dot) = []" by code_simp
  have t: "targets ex_dot = {''./a/c.txt''}"
    by (simp add: targets_def d) (simp add: f)
  from k p g k2 r t show ?thesis by (simp add: maxAlloc_def)
qed

text \<open>
  Claim C1, amended. For every inventory and every worker count of at least 1 that \<open>make\<close>
  accepts for both slices of \<open>FileGroups\<close>, \<open>24 * tpsize \<le> maxAlloc\<close>: every entry that is
  not a directory and every directory that \<open>EmptyDirs\<close> returns is in exactly one of the
  returned groups and in it once, and the groups hold nothing else; where the parent of
  every file is found as it is written, these are the extraction targets of the
  specification. The weight of every group is the sum of the effective sizes of its
  members (in the arithmetic of int64, which is the sum of the integers when the effective
  sizes are not negative and their total is below \<open>2^63\<close>); and at most as many groups are
  returned as there are workers, none of them empty.
\<close>

theorem FileGroups_partition:
  assumes inv: "fst (GetFiles e rs w) = Some allFiles"
    and keys: "distinct_keys rs"
    and k: "1 \<le> tpsize rs"
    and mk: "24 * tpsize rs \<le> maxAlloc"
    and srt: "sorts (sort_Slice e)"
  shows "\<exists>groups result.
     fst (FileGroups_groups e rs w) = Inr groups \<and>
     fst (FileGroups e rs w) = Inr result \<and>
     result = file_lists groups \<and>
     set (concat result)
       = set (file_names allFiles) \<union> set (EmptyDirs (file_names allFiles) (dir_names allFiles)) \<and>
     (parents_as_written allFiles \<longrightarrow> set (concat result) = targets allFiles) \<and>
     distinct (concat result) \<and>
     (\<forall>g\<in>set groups.
        Group.Size g =
          (\<Sum>n\<leftarrow>Files g. effective_size (Previous (options rs))
                            (n, the (map_of (FilesToExtract_from allFiles) n)))) \<and>
     ((\<forall>a\<in>set (FilesToExtract_from allFiles). 0 \<le> sint (effective_size (Previous (options rs)) a)) \<and>
      (\<Sum>a\<leftarrow>FilesToExtract_from allFiles. sint (effective_size (Previous (options rs)) a)) < 2 ^ 63
      \<longrightarrow> (\<forall>g\<in>set groups.
            sint (Group.Size g) =
              (\<Sum>n\<leftarrow>Files g. sint (effective_size (Previous (options rs))
                                  (n, the (map_of (FilesToExtract_from allFiles) n)))))) \<and>
     length result \<le> nat (tpsize rs) \<and>
     [] \<notin> set result"
proof -
  let ?tg = "FilesToExtract_from allFiles"
  let ?prev = "Previous (options rs)"
  let ?es = "sort_Slice e ?tg"
  let ?g0 = "replicate (nat (tpsize rs)) \<lparr>Files = [], Group.Size = 0\<rparr>"
  let ?wt = "\<lambda>n. effective_size ?prev (n, the (map_of ?tg n))"
  let ?code = "set (file_names allFiles) \<union> set (EmptyDirs (file_names allFiles) (dir_names allFiles))"
  have dist: "distinct (map fst allFiles)"
    by (rule GetFiles_distinct [OF keys inv])
  obtain rs' w' where g: "GetFiles e rs w = (Some allFiles, rs', w')"
    using inv by (cases "GetFiles e rs w") auto
  have fte: "FilesToExtract e rs w = (?tg, rs', w')"
    by (simp add: FilesToExtract_def g)
  have ne: "?g0 \<noteq> []" using k by simp
  obtain gs where d: "distribute ?prev ?g0 ?es = Inr gs" and len: "length gs = length ?g0"
    using distribute_total [OF ne] by blast
  have ng: "new_groups (tpsize rs) = Inr ?g0"
    using k mk by (simp add: new_groups_made)
  have fgg: "FileGroups_groups e rs w = (Inr gs, rs', w')"
    by (simp add: FileGroups_groups_def ng fte d)
  have fg: "FileGroups e rs w = (Inr (file_lists gs), rs', w')"
    using k mk by (simp add: FileGroups_def fgg makeslice_result)
  have perm: "mset ?es = mset ?tg" using srt by (simp add: sorts_def)
  have names: "mset (concat (map Files gs)) = mset (map fst ?tg)"
    using distribute_mset [OF ne d] perm
    by (simp add: concat_replicate_empty)
  have dtg: "distinct (map fst ?tg)" by (rule FilesToExtract_from_names(2) [OF dist])
  have dres: "distinct (concat (file_lists gs))"
    unfolding concat_file_lists using mset_eq_imp_distinct_iff [OF names] dtg by blast
  have sres: "set (concat (file_lists gs)) = ?code"
    unfolding concat_file_lists
    using mset_eq_setD [OF names] FilesToExtract_from_names(1) [OF dist] by blast
  have spec: "set (concat (file_lists gs)) = targets allFiles" if "parents_as_written allFiles"
    unfolding sres targets_def using EmptyDirs_as_written [OF that] by simp
  have wt: "?wt (fst a) = effective_size ?prev a" if "a \<in> set ?es" for a
  proof -
    have "a \<in> set ?tg" using that perm by (metis mset_eq_setD)
    then have "(fst a, snd a) \<in> set ?tg" by simp
    then have "map_of ?tg (fst a) = Some (snd a)"
      by (rule map_of_is_SomeI [OF dtg])
    then show ?thesis by simp
  qed
  have weights: "\<forall>g\<in>set gs. Group.Size g = sum_list (map ?wt (Files g))"
    by (rule distribute_weight [OF ne d]) (use wt in auto)
  have ints: "sint (Group.Size g) = (\<Sum>n\<leftarrow>Files g. sint (?wt n))"
    if nn: "\<forall>a\<in>set ?tg. 0 \<le> sint (effective_size ?prev a)"
      and tot: "(\<Sum>a\<leftarrow>?tg. sint (effective_size ?prev a)) < 2 ^ 63"
      and g: "g \<in> set gs" for g
  proof -
    let ?f = "\<lambda>n. sint (?wt n)"
    have mem: "n \<in> set (map fst ?tg)" if "n \<in> set (concat (map Files gs))" for n
      using that names by (metis mset_eq_setD)
    have nn': "0 \<le> ?f n" if "n \<in> set (concat (map Files gs))" for n
    proof -
      from mem [OF that] obtain a where a: "a \<in> set ?tg" "fst a = n" by auto
      then have "a \<in> set ?es" using perm by (metis mset_eq_setD)
      from wt [OF this] a nn show ?thesis by auto
    qed
    have "sum_list (map ?f (Files g)) \<le> sum_list (map ?f (concat (map Files gs)))"
      by (rule sum_list_member_le) (use g nn' in auto)
    also have "\<dots> = sum_list (map ?f (map fst ?tg))"
      by (rule sum_list_mset_cong [OF names])
    also have "\<dots> = (\<Sum>a\<leftarrow>?tg. sint (effective_size ?prev a))"
    proof -
      have "?f (fst a) = sint (effective_size ?prev a)" if "a \<in> set ?tg" for a
      proof -
        have "a \<in> set ?es" using that perm by (metis mset_eq_setD)
        from wt [OF this] show ?thesis by simp
      qed
      then show ?thesis by (simp add: comp_def cong: map_cong)
    qed
    finally have bound: "sum_list (map ?f (Files g)) < 2 ^ 63" using tot by simp
    have "\<forall>x\<in>set (map ?wt (Files g)). 0 \<le> sint x"
      using nn' g by auto
    moreover have "sum_list (map sint (map ?wt (Files g))) < 2 ^ 63"
      using bound by (simp add: comp_def)
    ultimately have "sint (sum_list (map ?wt (Files g))) = sum_list (map sint (map ?wt (Files g)))"
      by (rule sint_sum_list)
    then show ?thesis using weights g by (simp add: comp_def)
  qed
  have l: "length (file_lists gs) \<le> nat (tpsize rs)"
    using length_file_lists [of gs] len by simp
  have n: "[] \<notin> set (file_lists gs)"
    using file_lists_nonempty by blast
  have f1: "fst (FileGroups_groups e rs w) = Inr gs" by (simp add: fgg)
  have f2: "fst (FileGroups e rs w) = Inr (file_lists gs)" by (simp add: fg)
  from f1 f2 sres spec dres weights ints l n show ?thesis
    by (intro exI [of _ gs] exI [of _ "file_lists gs"] conjI impI ballI) blast+
qed

theorem FileGroups_partition_witness:
  "fst (GetFiles ex_idle (ex_rs ex_five (Some [(''c'', ex_info 10)])) ex_world) = Some ex_five \<and>
   distinct_keys (ex_rs ex_five (Some [(''c'', ex_info 10)])) \<and>
   1 \<le> tpsize (ex_rs ex_five (Some [(''c'', ex_info 10)])) \<and>
   24 * tpsize (ex_rs ex_five (Some [(''c'', ex_info 10)])) \<le> maxAlloc \<and>
   sorts (sort_Slice ex_idle) \<and>
   parents_as_written ex_five \<and>
   fst (FileGroups_groups ex_idle (ex_rs ex_five (Some [(''c'', ex_info 10)])) ex_world)
     = Inr [\<lparr>Files = [''a''], Group.Size = 100\<rparr>,
            \<lparr>Files = [''b'', ''c'', ''d'', ''e/''], Group.Size = 20\<rparr>] \<and>
   fst (FileGroups ex_idle (ex_rs ex_five (Some [(''c'', ex_info 10)])) ex_world)
     = Inr [[''a''], [''b'', ''c'', ''d'', ''e/'']] \<and>
   targets ex_five = {''a'', ''b'', ''c'', ''d'', ''e/''}"
proof -
  let ?rs = "ex_rs ex_five (Some [(''c'', ex_info 10)])"
  have h1: "fst (GetFiles ex_idle ?rs ex_world) = Some ex_five"
    by (simp add: GetFiles_def ex_rs_def)
  have h2: "distinct_keys ?rs" by (simp add: distinct_keys_def ex_rs_def ex_five_def)
  have h3: "1 \<le> tpsize ?rs" by (simp add: ex_rs_def NewGoSnapper_def ex_opts_def)
  have h3': "24 * tpsize ?rs \<le> maxAlloc"
    by (simp add: ex_rs_def NewGoSnapper_def ex_opts_def maxAlloc_def)
  have h4: "sorts (sort_Slice ex_idle)"
    by (simp add: ex_idle_def ex_env_def sorts_stable_sort)
  have h5: "parents_as_written ex_five" by code_simp
  from FileGroups_partition [OF h1 h2 h3 h3' h4]
  obtain groups result where
    r: "fst (FileGroups_groups ex_idle ?rs ex_world) = Inr groups"
       "fst (FileGroups ex_idle ?rs ex_world) = Inr result"
       "result = file_lists groups"
       "parents_as_written ex_five \<longrightarrow> set (concat result) = targets ex_five"
    by blast
  have g: "groups = [\<lparr>Files = [''a''], Group.Size = 100\<rparr>,
                     \<lparr>Files = [''b'', ''c'', ''d'', ''e/''], Group.Size = 20\<rparr>]"
    using r(1) ex_FileGroups_groups by simp
  have res: "result = [[''a''], [''b'', ''c'', ''d'', ''e/'']]"
    by (simp add: r(3) g file_lists_def)
  have "targets ex_five = {''a'', ''b'', ''c'', ''d'', ''e/''}"
    using r(4) h5 by (simp add: res)
  with h1 h2 h3 h3' h4 h5 r(1,2) g res show ?thesis by simp
qed

section \<open>The diagnostics of the workers and the end of the run\<close>

lemma benign_HasSuffix:
  "benign line \<longleftrightarrow> HasSuffix line NotOlderError \<or> HasSuffix line AlreadyExists"
  by (simp add: benign_def HasSuffix_iff)

lemma ExitError_not_benign: "\<not> benign ExitError"
  unfolding benign_HasSuffix by code_simp

lemma TrimSuffix_nl: "TrimSuffix (text @ [nl]) [nl] = text"
  by (simp add: TrimSuffix_def HasSuffix_def)

lemma handle_line_benign:
  "benign (text @ [nl]) \<Longrightarrow> handle_line text s = s"
  by (simp add: handle_line_def benign_HasSuffix Let_def)

lemma handle_line_exit:
  "text @ [nl] = ExitError \<Longrightarrow> handle_line text s = (True, snd s)"
  using ExitError_not_benign
  by (simp add: handle_line_def benign_HasSuffix Let_def)

lemma handle_line_forward:
  "\<not> benign (text @ [nl]) \<Longrightarrow> text @ [nl] \<noteq> ExitError \<Longrightarrow>
   handle_line text s = (fst s, snd s @ [text])"
  by (simp add: handle_line_def benign_HasSuffix Let_def TrimSuffix_nl)

lemma fold_handle_line:
  "fold handle_line lines (flag, written) =
     (flag \<or> (\<exists>t\<in>set lines. t @ [nl] = ExitError),
      written @ filter (\<lambda>t. \<not> benign (t @ [nl]) \<and> t @ [nl] \<noteq> ExitError) lines)"
proof (induction lines arbitrary: flag written)
  case Nil
  then show ?case by simp
next
  case (Cons t lines)
  consider "benign (t @ [nl])" | "t @ [nl] = ExitError"
    | "\<not> benign (t @ [nl])" "t @ [nl] \<noteq> ExitError" by blast
  then show ?case
  proof cases
    case 1
    then have "t @ [nl] \<noteq> ExitError" using ExitError_not_benign by auto
    with 1 Cons show ?thesis by (simp add: handle_line_benign)
  next
    case 2
    with Cons show ?thesis by (simp add: handle_line_exit)
  next
    case 3
    with Cons show ?thesis by (simp add: handle_line_forward)
  qed
qed

lemma worker_flag: "fst (worker e idx chunk) \<longleftrightarrow> sets_flag e idx"
  by (cases "extraction_of e idx")
     (simp_all add: worker_def sets_flag_def Let_def fold_handle_line)

lemma not_ExitError [simp]:
  "c \<noteq> CHR ''t'' \<Longrightarrow> c # r \<noteq> ExitError"
  "c \<noteq> CHR ''t'' \<Longrightarrow> ExitError \<noteq> c # r"
  by (auto simp: ExitError_def)

lemma nl_in_ExitError: "nl \<in> set ExitError"
  by (simp add: ExitError_def)

lemma GetFiles_state:
  "errorOccured (fst (snd (GetFiles e rs w))) = errorOccured rs"
  by (simp add: GetFiles_def Let_def split: option.splits listing.splits prod.splits)

lemma GetFiles_stderr:
  "ExitError \<notin> set (stderr w) \<Longrightarrow> ExitError \<notin> set (stderr (snd (snd (GetFiles e rs w))))"
  by (auto simp: GetFiles_def Let_def Fprintf_def
           split: option.splits listing.splits prod.splits)

lemma FileGroups_state:
  "errorOccured (fst (snd (FileGroups e rs w))) = errorOccured rs"
proof -
  have g: "errorOccured (fst (snd (FileGroups_groups e rs w))) = errorOccured rs"
    using GetFiles_state [of e rs w]
    by (auto simp: FileGroups_groups_def FilesToExtract_def Let_def split: sum.splits prod.splits)
  then show ?thesis
    by (auto simp: FileGroups_def split: sum.splits prod.splits option.splits)
qed

lemma FileGroups_stderr:
  assumes "ExitError \<notin> set (stderr w)"
  shows "ExitError \<notin> set (stderr (snd (snd (FileGroups e rs w))))"
proof -
  have g: "ExitError \<notin> set (stderr (snd (snd (FileGroups_groups e rs w))))"
    using GetFiles_stderr [OF assms, of e rs] assms
    by (auto simp: FileGroups_groups_def FilesToExtract_def Let_def split: sum.splits prod.splits)
  then show ?thesis
    by (auto simp: FileGroups_def split: sum.splits prod.splits option.splits)
qed

lemma worker_writes:
  assumes "\<forall>lines. extraction_of e idx = ExtractRuns lines \<longrightarrow> (\<forall>t\<in>set lines. nl \<notin> set t)"
  shows "ExitError \<notin> set (snd (worker e idx chunk))"
proof (cases "extraction_of e idx")
  case (ExtractPipeFails err)
  then show ?thesis by (auto simp: worker_def Let_def)
next
  case (ExtractStartFails err)
  then show ?thesis by (auto simp: worker_def Let_def)
next
  case (ExtractRuns lines)
  have "t \<noteq> ExitError" if "t \<in> set lines" for t
    using assms ExtractRuns that nl_in_ExitError by auto
  with ExtractRuns show ?thesis
    by (auto simp: worker_def Let_def fold_handle_line)
qed

lemma list_ex_enumerate:
  "list_ex (\<lambda>p. P (fst p) (snd p)) (enumerate 0 xs) \<longleftrightarrow> (\<exists>i<length xs. P i (xs ! i))"
proof
  assume "list_ex (\<lambda>p. P (fst p) (snd p)) (enumerate 0 xs)"
  then show "\<exists>i<length xs. P i (xs ! i)"
    by (auto simp: list_ex_iff in_set_enumerate_eq)
next
  assume "\<exists>i<length xs. P i (xs ! i)"
  then obtain i where i: "i < length xs" "P i (xs ! i)" by blast
  then have "(i, xs ! i) \<in> set (enumerate 0 xs)"
    by (simp add: in_set_enumerate_eq)
  with i(2) show "list_ex (\<lambda>p. P (fst p) (snd p)) (enumerate 0 xs)"
    unfolding list_ex_iff by (intro bexI [of _ "(i, xs ! i)"]) simp_all
qed

lemma Run_Inr:
  assumes "fst (Run e rs w) = Inr out"
  shows "\<exists>fileGroups rs' w'.
     FileGroups e rs w = (Inr fileGroups, rs', w') \<and>
     main_out out = stderr w' @ [''Creating '' @ itoa (int (length fileGroups))
                                   @ '' worker threads for file extraction'' @ [nl]] \<and>
     worker_out out = map (\<lambda>(idx, chunk). snd (worker e idx chunk)) (enumerate 0 fileGroups) \<and>
     final_out out = (if errorOccured rs \<or> (\<exists>idx<length fileGroups. sets_flag e idx)
                      then [ExitError] else []) \<and>
     errorOccured (snd (Run e rs w))
       = (errorOccured rs \<or> (\<exists>idx<length fileGroups. sets_flag e idx))"
proof -
  obtain r rs' w' where fg: "FileGroups e rs w = (r, rs', w')"
    by (cases "FileGroups e rs w")
  with assms obtain fileGroups where r: "r = Inr fileGroups"
    by (cases r) (auto simp: Run_def)
  have st: "errorOccured rs' = errorOccured rs"
    using FileGroups_state [of e rs w] fg by simp
  let ?ws = "map (\<lambda>(idx, chunk). worker e idx chunk) (enumerate 0 fileGroups)"
  have "list_ex fst ?ws \<longleftrightarrow> list_ex (\<lambda>p. fst (worker e (fst p) (snd p))) (enumerate 0 fileGroups)"
    by (simp add: list_ex_iff case_prod_beta)
  also have "\<dots> \<longleftrightarrow> (\<exists>idx<length fileGroups. fst (worker e idx (fileGroups ! idx)))"
    by (rule list_ex_enumerate)
  finally have flag: "list_ex fst ?ws \<longleftrightarrow> (\<exists>idx<length fileGroups. sets_flag e idx)"
    by (simp add: worker_flag)
  have "Run e rs w =
      (Inr \<lparr>main_out = stderr (Fprintf w' (''Creating '' @ itoa (int (length fileGroups))
                                @ '' worker threads for file extraction'' @ [nl])),
            worker_out = map snd ?ws,
            final_out = (if errorOccured rs' \<or> list_ex fst ?ws then [ExitError] else [])\<rparr>,
       rs'\<lparr>errorOccured := (errorOccured rs' \<or> list_ex fst ?ws)\<rparr>)"
    by (simp add: Run_def fg r Let_def)
  with assms have
    "out = \<lparr>main_out = stderr (Fprintf w' (''Creating '' @ itoa (int (length fileGroups))
                                @ '' worker threads for file extraction'' @ [nl])),
            worker_out = map snd ?ws,
            final_out = (if errorOccured rs' \<or> list_ex fst ?ws then [ExitError] else [])\<rparr>"
    and "snd (Run e rs w) = rs'\<lparr>errorOccured := (errorOccured rs' \<or> list_ex fst ?ws)\<rparr>"
    by simp_all
  then show ?thesis
    using fg r st flag
    by (intro exI [of _ fileGroups] exI [of _ rs'] exI [of _ w'])
       (simp add: Fprintf_def case_prod_beta comp_def)
qed

lemma worker_runs:
  assumes "extraction_of e idx = ExtractRuns lines"
  shows "\<exists>started completed.
     snd (worker e idx chunk)
       = [started] @ filter (\<lambda>t. \<not> benign (t @ [nl]) \<and> t @ [nl] \<noteq> ExitError) lines @ [completed]"
  using assms by (simp add: worker_def Let_def fold_handle_line)

text \<open>
  Claim C2. Of the lines that a worker reads from the standard error of its process, one
  that ends with the template "not older" or "already exists" is suppressed; one that is
  the template of the delayed error sets the shared flag and is not forwarded; every
  other line is forwarded, without its newline. After the workers, \<open>Run\<close> writes the
  message of the delayed error if and only if the flag is set, which for a new GoSnapper
  is if and only if a worker set it; and when no line holds a newline and the message was
  not on the stream before, the message is written exactly once or not at all.
\<close>

theorem Run_stderr_classification:
  assumes "fst (Run e rs w) = Inr out"
  shows
   "(\<forall>text s. benign (text @ [nl]) \<longrightarrow> handle_line text s = s) \<and>
    (\<forall>text s. text @ [nl] = ExitError \<longrightarrow> handle_line text s = (True, snd s)) \<and>
    (\<forall>text s. \<not> benign (text @ [nl]) \<and> text @ [nl] \<noteq> ExitError
       \<longrightarrow> handle_line text s = (fst s, snd s @ [text])) \<and>
    (\<forall>idx lines. idx < length (worker_out out) \<and> extraction_of e idx = ExtractRuns lines
       \<longrightarrow> (\<exists>started completed.
             worker_out out ! idx
               = [started] @ filter (\<lambda>t. \<not> benign (t @ [nl]) \<and> t @ [nl] \<noteq> ExitError) lines
                 @ [completed])) \<and>
    final_out out
      = (if errorOccured rs \<or> (\<exists>idx < length (worker_out out). sets_flag e idx)
         then [ExitError] else []) \<and>
    errorOccured (snd (Run e rs w))
      = (errorOccured rs \<or> (\<exists>idx < length (worker_out out). sets_flag e idx)) \<and>
    \<not> errorOccured (NewGoSnapper a opts) \<and>
    (ExitError \<notin> set (stderr w) \<and>
     (\<forall>idx lines. extraction_of e idx = ExtractRuns lines \<longrightarrow> (\<forall>t\<in>set lines. nl \<notin> set t))
     \<longrightarrow> count_list (main_out out @ concat (worker_out out) @ final_out out) ExitError
           = (if errorOccured rs \<or> (\<exists>idx < length (worker_out out). sets_flag e idx)
              then 1 else 0))"
proof -
  from Run_Inr [OF assms] obtain fileGroups rs' w' where
    fg: "FileGroups e rs w = (Inr fileGroups, rs', w')"
    and mo: "main_out out = stderr w' @ [''Creating '' @ itoa (int (length fileGroups))
                                   @ '' worker threads for file extraction'' @ [nl]]"
    and wo: "worker_out out = map (\<lambda>(idx, chunk). snd (worker e idx chunk)) (enumerate 0 fileGroups)"
    and fo: "final_out out = (if errorOccured rs \<or> (\<exists>idx<length fileGroups. sets_flag e idx)
                      then [ExitError] else [])"
    and eo: "errorOccured (snd (Run e rs w))
       = (errorOccured rs \<or> (\<exists>idx<length fileGroups. sets_flag e idx))"
    by blast
  have len: "length (worker_out out) = length fileGroups" by (simp add: wo)
  have nth: "worker_out out ! idx = snd (worker e idx (fileGroups ! idx))"
    if "idx < length fileGroups" for idx
    using that by (simp add: wo nth_enumerate_eq)
  have lines: "\<exists>started completed.
             worker_out out ! idx
               = [started] @ filter (\<lambda>t. \<not> benign (t @ [nl]) \<and> t @ [nl] \<noteq> ExitError) lines
                 @ [completed]"
    if "idx < length (worker_out out)" "extraction_of e idx = ExtractRuns lines" for idx lines
    using worker_runs [OF that(2), of "fileGroups ! idx"] nth that(1) len by simp
  have fresh: "\<not> errorOccured (NewGoSnapper a opts)"
    by (simp add: NewGoSnapper_def Let_def)
  have once: "count_list (main_out out @ concat (worker_out out) @ final_out out) ExitError
           = (if errorOccured rs \<or> (\<exists>idx < length (worker_out out). sets_flag e idx)
              then 1 else 0)"
    if clean: "ExitError \<notin> set (stderr w)"
      and tokens: "\<forall>idx lines. extraction_of e idx = ExtractRuns lines \<longrightarrow> (\<forall>t\<in>set lines. nl \<notin> set t)"
  proof -
    have "ExitError \<notin> set (stderr w')"
      using FileGroups_stderr [OF clean, of e rs] fg by simp
    then have m: "count_list (main_out out) ExitError = 0"
      by (simp add: mo)
    have "ExitError \<notin> set (snd (worker e idx chunk))" for idx chunk
      by (rule worker_writes) (use tokens in blast)
    then have "ExitError \<notin> set (concat (worker_out out))"
      by (auto simp: wo)
    then have c: "count_list (concat (worker_out out)) ExitError = 0"
      by simp
    show ?thesis using m c by (simp add: fo len)
  qed
  from handle_line_benign handle_line_exit handle_line_forward lines fo eo fresh once len
  show ?thesis by (simp only: len) blast
qed

lemma ex_Run: "fst (Run ex_extracting (ex_rs ex_four None) ex_world) = Inr ex_outcome"
  by code_simp

theorem Run_stderr_classification_witness:
  "fst (Run ex_extracting (ex_rs ex_four None) ex_world) = Inr ex_outcome \<and>
   benign (''x: Already exists'' @ [nl]) \<and>
   handle_line ''x: Already exists'' (False, []) = (False, []) \<and>
   handle_line ''tarsnap: Error exit delayed from previous errors.'' (False, []) = (True, []) \<and>
   \<not> benign (''hello'' @ [nl]) \<and>
   handle_line ''hello'' (False, []) = (False, [''hello'']) \<and>
   sets_flag ex_extracting 0 \<and>
   final_out ex_outcome = [ExitError] \<and>
   errorOccured (snd (Run ex_extracting (ex_rs ex_four None) ex_world)) \<and>
   count_list (main_out ex_outcome @ concat (worker_out ex_outcome) @ final_out ex_outcome) ExitError = 1"
proof -
  note cls = Run_stderr_classification [OF ex_Run, of "''archive''" "ex_opts 0"]
  have b1: "benign (''x: Already exists'' @ [nl])"
    unfolding benign_HasSuffix by code_simp
  have b2: "\<not> benign (''hello'' @ [nl])"
    unfolding benign_HasSuffix by code_simp
  have x: "''tarsnap: Error exit delayed from previous errors.'' @ [nl] = ExitError"
    by (simp add: ExitError_def)
  have n: "''hello'' @ [nl] \<noteq> ExitError" by (simp add: ExitError_def)
  have ex: "extraction_of ex_extracting idx = ExtractRuns ex_stderr" for idx
    by (simp add: ex_extracting_def ex_env_def)
  have flag: "sets_flag ex_extracting 0"
    using x by (auto simp: sets_flag_def ex ex_stderr_def)
  have len: "length (worker_out ex_outcome) = 2" by (simp add: ex_outcome_def)
  have some: "\<exists>idx < length (worker_out ex_outcome). sets_flag ex_extracting idx"
    using flag len by (intro exI [of _ 0]) simp
  have clean: "ExitError \<notin> set (stderr ex_world)" by (simp add: ex_world_def)
  have tokens: "\<forall>idx lines. extraction_of ex_extracting idx = ExtractRuns lines
                  \<longrightarrow> (\<forall>t\<in>set lines. nl \<notin> set t)"
    by (simp add: ex ex_stderr_def nl_def)
  note k1 = cls [THEN conjunct1, rule_format]
  note k2 = cls [THEN conjunct2, THEN conjunct1, rule_format]
  note k3 = cls [THEN conjunct2, THEN conjunct2, THEN conjunct1, rule_format]
  note k5 = cls [THEN conjunct2, THEN conjunct2, THEN conjunct2, THEN conjunct2, THEN conjunct1]
  note k6 = cls [THEN conjunct2, THEN conjunct2, THEN conjunct2, THEN conjunct2, THEN conjunct2,
                 THEN conjunct1]
  note k8 = cls [THEN conjunct2, THEN conjunct2, THEN conjunct2, THEN conjunct2, THEN conjunct2,
                 THEN conjunct2, THEN conjunct2, rule_format]
  have c1: "handle_line ''x: Already exists'' (False, []) = (False, [])"
    by (rule k1 [OF b1])
  have c2: "handle_line ''tarsnap: Error exit delayed from previous errors.'' (False, []) = (True, [])"
    using k2 [OF x, of "(False, [])"] by simp
  have c3: "handle_line ''hello'' (False, []) = (False, [''hello''])"
    using k3 [OF conjI [OF b2 n], of "(False, [])"] by simp
  have c4: "final_out ex_outcome = [ExitError]"
    using k5 some by (simp only: if_True simp_thms)
  have c5: "errorOccured (snd (Run ex_extracting (ex_rs ex_four None) ex_world))"
    using k6 some by (simp only: simp_thms)
  have c6: "count_list (main_out ex_outcome @ concat (worker_out ex_outcome) @ final_out ex_outcome)
              ExitError = 1"
    using k8 [OF conjI [OF clean tokens]] some by (simp only: if_True simp_thms)
  from ex_Run b1 b2 flag c1 c2 c3 c4 c5 c6 show ?thesis by blast
qed

lemma FilesToExtract_from_Nil: "FilesToExtract_from [] = []"
  by (simp add: FilesToExtract_from_def separate_def EmptyDirs_def)

lemma file_lists_replicate: "file_lists (replicate n \<lparr>Files = [], Group.Size = 0\<rparr>) = []"
  by (simp add: file_lists_def)

lemma itoa_0: "itoa 0 = ''0''"
  by code_simp

text \<open>
  Claim C8 says that \<open>Run\<close> aborts when the listing cannot start. It does not: \<open>GetFiles\<close>
  returns the nil inventory, and \<open>Run\<close> goes on, reports that it creates 0 workers and
  returns.
\<close>

theorem Run_listing_fails_returns:
  "fst (GetFiles ex_broken (NewGoSnapper ''archive'' (ex_opts 0)) ex_world) = None \<and>
   fst (Run ex_broken (NewGoSnapper ''archive'' (ex_opts 0)) ex_world)
     = Inr \<lparr>main_out = [''Error creating stdout pipe: boom'' @ [nl],
                          ''Creating 0 worker threads for file extraction'' @ [nl]],
             worker_out = [], final_out = []\<rparr> \<and>
   \<not> isl (fst (Run ex_broken (NewGoSnapper ''archive'' (ex_opts 0)) ex_world))"
proof -
  have g: "fst (GetFiles ex_broken (NewGoSnapper ''archive'' (ex_opts 0)) ex_world) = None"
    by code_simp
  have r: "fst (Run ex_broken (NewGoSnapper ''archive'' (ex_opts 0)) ex_world)
     = Inr \<lparr>main_out = [''Error creating stdout pipe: boom'' @ [nl],
                          ''Creating 0 worker threads for file extraction'' @ [nl]],
             worker_out = [], final_out = []\<rparr>"
    by code_simp
  from g r show ?thesis by simp
qed

text \<open>
  Claim C8, amended. When the pipe of the listing cannot be created or the client cannot
  be started, \<open>GetFiles\<close> reports the error and returns the nil inventory, which it does not
  cache. \<open>Run\<close> does not abort: it partitions the empty set of targets into no group,
  reports that it creates 0 workers, starts none and returns, with the message of the
  delayed error only if the flag was set before. This is so for a worker count that \<open>make\<close>
  accepts for both slices of \<open>FileGroups\<close>: one that is not negative, with
  \<open>24 * tpsize \<le> maxAlloc\<close>.
\<close>

theorem Run_listing_fails:
  assumes fails: "listing_of e = ListPipeFails err \<or> listing_of e = ListStartFails err"
    and nil: "files rs = None"
    and k: "0 \<le> tpsize rs"
    and mk: "24 * tpsize rs \<le> maxAlloc"
    and srt: "sorts (sort_Slice e)"
  shows "\<exists>msg.
     msg = (if listing_of e = ListPipeFails err
            then ''Error creating stdout pipe: '' @ err @ [nl]
            else ''Error starting tarsnap: '' @ err @ [nl]) \<and>
     GetFiles e rs w = (None, rs, Fprintf w msg) \<and>
     fst (FileGroups e rs w) = Inr [] \<and>
     Run e rs w =
       (Inr \<lparr>main_out = stderr w @ [msg, ''Creating 0 worker threads for file extraction'' @ [nl]],
             worker_out = [],
             final_out = (if errorOccured rs then [ExitError] else [])\<rparr>,
        rs)"
proof -
  let ?msg = "if listing_of e = ListPipeFails err
            then ''Error creating stdout pipe: '' @ err @ [nl]
            else ''Error starting tarsnap: '' @ err @ [nl]"
  have g: "GetFiles e rs w = (None, rs, Fprintf w ?msg)"
    using fails nil by (auto simp: GetFiles_def)
  have "mset (sort_Slice e []) = {#}" using srt by (simp add: sorts_def)
  then have empty: "sort_Slice e [] = []" by simp
  have fgg: "FileGroups_groups e rs w
      = (Inr (replicate (nat (tpsize rs)) \<lparr>Files = [], Group.Size = 0\<rparr>), rs, Fprintf w ?msg)"
    using k mk by (simp add: FileGroups_groups_def new_groups_made FilesToExtract_def g
        FilesToExtract_from_Nil empty)
  have fg: "FileGroups e rs w = (Inr [], rs, Fprintf w ?msg)"
    using k mk by (simp add: FileGroups_def fgg file_lists_replicate makeslice_result)
  have same: "rs\<lparr>errorOccured := errorOccured rs\<rparr> = rs" by simp
  have run: "Run e rs w =
       (Inr \<lparr>main_out = stderr w @ [?msg, ''Creating 0 worker threads for file extraction'' @ [nl]],
             worker_out = [],
             final_out = (if errorOccured rs then [ExitError] else [])\<rparr>,
        rs)"
    by (simp add: Run_def fg Let_def Fprintf_def itoa_0 same)
  from g fg run show ?thesis by simp
qed

theorem Run_listing_fails_witness:
  "listing_of ex_broken = ListPipeFails ''boom'' \<and>
   files (NewGoSnapper ''archive'' (ex_opts 0)) = None \<and>
   0 \<le> tpsize (NewGoSnapper ''archive'' (ex_opts 0)) \<and>
   24 * tpsize (NewGoSnapper ''archive'' (ex_opts 0)) \<le> maxAlloc \<and>
   sorts (sort_Slice ex_broken) \<and>
   fst (FileGroups ex_broken (NewGoSnapper ''archive'' (ex_opts 0)) ex_world) = Inr [] \<and>
   Run ex_broken (NewGoSnapper ''archive'' (ex_opts 0)) ex_world =
     (Inr \<lparr>main_out = [''Error creating stdout pipe: boom'' @ [nl],
                          ''Creating 0 worker threads for file extraction'' @ [nl]],
           worker_out = [], final_out = []\<rparr>,
      NewGoSnapper ''archive'' (ex_opts 0))"
proof -
  let ?rs = "NewGoSnapper ''archive'' (ex_opts 0)"
  have h1: "listing_of ex_broken = ListPipeFails ''boom''"
    by (simp add: ex_broken_def ex_env_def)
  have h2: "files ?rs = None" by (simp add: NewGoSnapper_def Let_def)
  have h3: "0 \<le> tpsize ?rs"
    by (simp add: NewGoSnapper_def Let_def ex_opts_def ThreadPoolDefaultSize_def)
  have h3': "24 * tpsize ?rs \<le> maxAlloc"
    by (simp add: NewGoSnapper_def Let_def ex_opts_def ThreadPoolDefaultSize_def maxAlloc_def)
  have h4: "sorts (sort_Slice ex_broken)"
    by (simp add: ex_broken_def ex_env_def sorts_stable_sort)
  have e: "\<not> errorOccured ?rs" by (simp add: NewGoSnapper_def Let_def)
  have s: "stderr ex_world = []" by (simp add: ex_world_def)
  from Run_listing_fails [OF disjI1 [OF h1] h2 h3 h3' h4, of ex_world] h1 e s
  have "fst (FileGroups ex_broken ?rs ex_world) = Inr [] \<and>
        Run ex_broken ?rs ex_world =
     (Inr \<lparr>main_out = [''Error creating stdout pipe: boom'' @ [nl],
                          ''Creating 0 worker threads for file extraction'' @ [nl]],
           worker_out = [], final_out = []\<rparr>, ?rs)"
    by simp
  with h1 h2 h3 h3' h4 show ?thesis by blast
qed

end
